theory Spec2Isabelle
  imports Complex_Main "HOL-Library.AList"
begin

section \<open>Job state of the dashboard (dashboard\_app.py)\<close>

text \<open>
  The dictionaries of the program are records here. A student is the dictionary
  \<^verbatim>\<open>{'name', 'roll', 'reg'}\<close> built while the roster is read; a result is the dictionary
  \<^verbatim>\<open>{'name', 'roll', 'reg', 'status', 'marks'}\<close> returned by \<^verbatim>\<open>process_single_student\<close>.
  The key \<^verbatim>\<open>'status'\<close> is the field \<open>r_status\<close> (the name \<open>status\<close> is kept for the
  route handler), \<^verbatim>\<open>'marks'\<close> maps a subject code to the mark token, both strings.
\<close>

type_synonym marks = "string \<rightharpoonup> string"

record student =
  name :: string
  roll :: string
  reg :: string

record result = student +
  r_status :: string
  marks :: marks

record subject =
  subject_name :: string
  total_marks :: int

text \<open>The global \<^verbatim>\<open>STATE\<close> dictionary, guarded by \<^verbatim>\<open>STATE_LOCK\<close>.\<close>

record jobstate =
  students :: "student list"
  results :: "result list"
  current_index :: nat
  running :: bool
  successful :: nat
  failed :: nat
  filename :: "string option"
  subject_info :: "string \<rightharpoonup> subject"

definition STATE_initial :: jobstate where
  "STATE_initial =
     \<lparr>students = [], results = [], current_index = 0, running = False,
      successful = 0, failed = 0, filename = None, subject_info = Map.empty\<rparr>"

subsection \<open>The status route\<close>

text \<open>
  What \<^verbatim>\<open>status()\<close> reads under the lock. The expiry fields of the reply are computed
  from the expiry ledger after the lock is released and are not part of this record.
\<close>

record status_reply =
  reply_total :: nat
  reply_current :: nat
  reply_running :: bool
  reply_successful :: nat
  reply_failed :: nat
  reply_current_student :: "string option"
  reply_failed_list :: "result list"
  reply_result_file :: "string option"

definition failed_list :: "jobstate \<Rightarrow> result list" where
  "failed_list st = filter (\<lambda>r. r_status r \<noteq> ''Success'') (results st)"

definition status :: "jobstate \<Rightarrow> status_reply" where
  "status st =
     (let total = length (students st);
          current = current_index st
      in \<lparr>reply_total = total,
          reply_current = current,
          reply_running = running st,
          reply_successful = successful st,
          reply_failed = failed st,
          reply_current_student =
            (if 0 < current \<and> current \<le> total
             then Some (name (students st ! (current - 1))) else None),
          reply_failed_list = failed_list st,
          reply_result_file = filename st\<rparr>)"

subsection \<open>Manual correction\<close>

text \<open>
  Python's \<^verbatim>\<open>str.strip()\<close>, \<^verbatim>\<open>str.split(',')\<close> and \<^verbatim>\<open>str.splitlines()\<close> on ASCII text.
  Throughout, text is a HOL string read as ASCII; the whitespace of \<^verbatim>\<open>strip\<close> and of the
  regular expression class \<^verbatim>\<open>\s\<close> is tab, line feed, vertical tab, form feed, carriage
  return, the four separators 0x1C to 0x1F and the space.
\<close>

definition is_space :: "char \<Rightarrow> bool" where
  "is_space c \<longleftrightarrow>
     c \<in> set [CHR 0x09, CHR 0x0A, CHR 0x0B, CHR 0x0C, CHR 0x0D,
              CHR 0x1C, CHR 0x1D, CHR 0x1E, CHR 0x1F, CHR 0x20]"

definition strip :: "string \<Rightarrow> string" where
  "strip s = rev (dropWhile is_space (rev (dropWhile is_space s)))"

fun split_on :: "char \<Rightarrow> string \<Rightarrow> string list" where
  "split_on sep [] = [[]]"
| "split_on sep (c # cs) =
     (if c = sep then [] # split_on sep cs
      else (case split_on sep cs of
              [] \<Rightarrow> [[c]]
            | p # ps \<Rightarrow> (c # p) # ps))"

definition is_linebreak :: "char \<Rightarrow> bool" where
  "is_linebreak c \<longleftrightarrow>
     c \<in> set [CHR 0x0A, CHR 0x0B, CHR 0x0C, CHR 0x0D, CHR 0x1C, CHR 0x1D, CHR 0x1E]"

text \<open>
  \<^verbatim>\<open>splitlines\<close>: a line ends at a line break, carriage return and line feed together
  count once, and no empty line follows the last break.
\<close>

fun splitlines :: "string \<Rightarrow> string list" where
  "splitlines [] = []"
| "splitlines (c # cs) =
     (if is_linebreak c then
        [] # splitlines (if c = CHR 0x0D \<and> cs \<noteq> [] \<and> hd cs = CHR 0x0A then tl cs else cs)
      else (case cs of
              [] \<Rightarrow> [[c]]
            | d # ds \<Rightarrow>
                (if is_linebreak d then [c] # tl (splitlines cs)
                 else (case splitlines cs of
                         [] \<Rightarrow> [[c]]
                       | l # ls \<Rightarrow> (c # l) # ls))))"

text \<open>
  The loop of \<^verbatim>\<open>failed_submit\<close> over the lines \<^verbatim>\<open>CODE,NAME,TOTAL,OBTAINED\<close>: a line with
  at least four parts stores the fourth part under the first.
\<close>

fun parse_manual_lines :: "string list \<Rightarrow> marks \<Rightarrow> marks" where
  "parse_manual_lines [] m = m"
| "parse_manual_lines (line # ls) m =
     (let parts = map strip (split_on CHR '','' line)
      in if length parts \<ge> 4
         then parse_manual_lines ls (m(parts ! 0 \<mapsto> parts ! 3))
         else parse_manual_lines ls m)"

definition parse_manual :: "string \<Rightarrow> marks" where
  "parse_manual manual = parse_manual_lines (splitlines manual) Map.empty"

datatype reply = Redirect | Not_found | Server_error

text \<open>
  \<^verbatim>\<open>failed_submit(idx)\<close> on the job state. \<open>outname\<close> is the file name built from the
  clock; \<open>saved\<close> says whether \<^verbatim>\<open>save_results_to_excel\<close> returned: when it raises, the
  record is already rewritten and the file name pointer stays as it was.
\<close>

definition failed_submit ::
    "int \<Rightarrow> string \<Rightarrow> string \<Rightarrow> bool \<Rightarrow> jobstate \<Rightarrow> reply \<times> jobstate" where
  "failed_submit idx manual outname saved st =
     (if idx < 0 \<or> idx \<ge> int (length (results st)) then (Not_found, st)
      else
        let i = nat idx;
            r = (results st ! i)\<lparr>marks := parse_manual manual, r_status := ''Success (manual)''\<rparr>;
            st1 = st\<lparr>results := (results st)[i := r]\<rparr>
        in if saved then (Redirect, st1\<lparr>filename := Some outname\<rparr>)
           else (Server_error, st1))"

text \<open>A failed result, for the examples below.\<close>

definition bob_failed :: result where
  "bob_failed =
     \<lparr>name = ''Bob'', roll = ''102'', reg = ''5002'',
      r_status = ''Failed: View link not found'', marks = Map.empty\<rparr>"

section \<open>The batch worker and the other writers of the job state\<close>

text \<open>
  \<^verbatim>\<open>worker_process\<close> runs in a thread of its own; the route handlers and the cleaner
  thread run beside it. Every write to \<^verbatim>\<open>STATE\<close> happens inside a
  \<^verbatim>\<open>with STATE_LOCK\<close> block, so the job state changes in atomic steps, one per block,
  and a state read while the lock is free is a state between two steps. The worker's
  position in its code is the \<open>control\<close>; what the world answers (the roster read, the
  browser started, a student processed, a report saved) comes with the event.
  One worker runs at a time: the upload that starts the next one is taken only when no
  worker is alive.
\<close>

datatype error = Read_error | Value_error | Driver_error | Save_error

datatype control =
    Idle
  | At_reset
  | At_load
  | At_store
  | At_driver
  | At_loop nat
  | At_process nat
  | At_snapshot nat
  | Finished
  | Crashed error

datatype event =
    Upload
  | Reset
  | Load "error + student list"
  | Store
  | Driver bool
  | Index
  | Processed string marks
  | Snapshot "string option"
  | Quit
  | Manual int string string bool
  | Detailed_info "string \<rightharpoonup> subject"
  | Detailed_file string
  | Cleaned string

record system =
  job :: jobstate
  control :: control
  roster :: "student list"

definition system_initial :: system where
  "system_initial = \<lparr>job = STATE_initial, control = Idle, roster = []\<rparr>"

definition alive :: "control \<Rightarrow> bool" where
  "alive c \<longleftrightarrow> c \<noteq> Idle \<and> c \<noteq> Finished \<and> (\<forall>e. c \<noteq> Crashed e)"

text \<open>Lines 149 to 154: the first lock block of \<^verbatim>\<open>worker_process\<close>.\<close>

definition reset_state :: "jobstate \<Rightarrow> jobstate" where
  "reset_state st =
     st\<lparr>running := True, current_index := 0, results := [], successful := 0, failed := 0\<rparr>"

text \<open>
  Lines 198 to 203: the result is appended and one of the two counters moves, in one
  lock block. The result carries the identity of the student it was computed for.
\<close>

definition make_result :: "student \<Rightarrow> string \<Rightarrow> marks \<Rightarrow> result" where
  "make_result stu status_text mk =
     \<lparr>name = name stu, roll = roll stu, reg = reg stu, r_status = status_text, marks = mk\<rparr>"

definition append_result :: "result \<Rightarrow> jobstate \<Rightarrow> jobstate" where
  "append_result r st =
     (let st1 = st\<lparr>results := results st @ [r]\<rparr>
      in if r_status r = ''Success''
         then st1\<lparr>successful := successful st1 + 1\<rparr>
         else st1\<lparr>failed := failed st1 + 1\<rparr>)"

text \<open>Line 206: a report is written after every fifth student and after the last one.\<close>

definition snapshot_due :: "nat \<Rightarrow> nat \<Rightarrow> bool" where
  "snapshot_due i n \<longleftrightarrow> i mod 5 = 0 \<or> i = n"

text \<open>
  One atomic step. \<open>None\<close> means that the event cannot happen at this control point.
  An exception that \<^verbatim>\<open>worker_process\<close> does not catch (the roster cannot be read, a roll
  number is not a number, the browser does not start, the report cannot be written) ends
  the thread where it stands: the control becomes \<open>Crashed\<close> and the job state is left
  as it is.
\<close>

definition step :: "event \<Rightarrow> system \<Rightarrow> system option" where
  "step ev s =
     (case ev of
        Upload \<Rightarrow>
          if alive (control s) then None else Some (s\<lparr>control := At_reset\<rparr>)
      | Reset \<Rightarrow>
          if control s = At_reset
          then Some (s\<lparr>job := reset_state (job s), control := At_load\<rparr>) else None
      | Load outcome \<Rightarrow>
          if control s = At_load
          then (case outcome of
                  Inl e \<Rightarrow> Some (s\<lparr>control := Crashed e\<rparr>)
                | Inr studs \<Rightarrow> Some (s\<lparr>roster := studs, control := At_store\<rparr>))
          else None
      | Store \<Rightarrow>
          if control s = At_store
          then Some (s\<lparr>job := (job s)\<lparr>students := roster s\<rparr>, control := At_driver\<rparr>)
          else None
      | Driver started \<Rightarrow>
          if control s = At_driver
          then Some (s\<lparr>control := (if started then At_loop 1 else Crashed Driver_error)\<rparr>)
          else None
      | Index \<Rightarrow>
          (case control s of
             At_loop i \<Rightarrow>
               if i \<le> length (roster s)
               then Some (s\<lparr>job := (job s)\<lparr>current_index := i\<rparr>, control := At_process i\<rparr>)
               else None
           | _ \<Rightarrow> None)
      | Processed status_text mk \<Rightarrow>
          (case control s of
             At_process i \<Rightarrow>
               Some (s\<lparr>job := append_result (make_result (roster s ! (i - 1)) status_text mk) (job s),
                       control := (if snapshot_due i (length (roster s))
                                   then At_snapshot i else At_loop (i + 1))\<rparr>)
           | _ \<Rightarrow> None)
      | Snapshot saved \<Rightarrow>
          (case control s of
             At_snapshot i \<Rightarrow>
               (case saved of
                  None \<Rightarrow> Some (s\<lparr>control := Crashed Save_error\<rparr>)
                | Some outname \<Rightarrow>
                    Some (s\<lparr>job := (job s)\<lparr>filename := Some outname\<rparr>,
                            control := At_loop (i + 1)\<rparr>))
           | _ \<Rightarrow> None)
      | Quit \<Rightarrow>
          (case control s of
             At_loop i \<Rightarrow>
               if length (roster s) < i
               then Some (s\<lparr>job := (job s)\<lparr>running := False\<rparr>, control := Finished\<rparr>)
               else None
           | _ \<Rightarrow> None)
      | Manual idx manual outname saved \<Rightarrow>
          Some (s\<lparr>job := snd (failed_submit idx manual outname saved (job s))\<rparr>)
      | Detailed_info info \<Rightarrow>
          Some (s\<lparr>job := (job s)\<lparr>subject_info := info\<rparr>\<rparr>)
      | Detailed_file outname \<Rightarrow>
          Some (s\<lparr>job := (job s)\<lparr>filename := Some outname\<rparr>\<rparr>)
      | Cleaned fname \<Rightarrow>
          Some (s\<lparr>job := (if filename (job s) = Some fname
                           then (job s)\<lparr>filename := None\<rparr> else job s)\<rparr>))"

fun run :: "event list \<Rightarrow> system \<Rightarrow> system option" where
  "run [] s = Some s"
| "run (ev # evs) s = (case step ev s of None \<Rightarrow> None | Some s' \<Rightarrow> run evs s')"

text \<open>The counters invariant of the status reply.\<close>

definition counters_invariant :: "jobstate \<Rightarrow> bool" where
  "counters_invariant st \<longleftrightarrow>
     successful st + failed st = length (results st)
     \<and> length (results st) \<le> current_index st
     \<and> current_index st \<le> length (students st)"

text \<open>What holds of the job state at each control point of the worker.\<close>

definition at_control :: "system \<Rightarrow> bool" where
  "at_control s =
     (let st = job s; n = length (roster s) in
      case control s of
        At_load \<Rightarrow> length (results st) = 0 \<and> current_index st = 0
      | At_store \<Rightarrow> length (results st) = 0 \<and> current_index st = 0
      | At_driver \<Rightarrow> length (results st) = 0 \<and> current_index st = 0 \<and> students st = roster s
      | At_loop i \<Rightarrow>
          students st = roster s \<and> 1 \<le> i \<and> i \<le> n + 1
          \<and> length (results st) = i - 1 \<and> current_index st = i - 1
      | At_process i \<Rightarrow>
          students st = roster s \<and> 1 \<le> i \<and> i \<le> n
          \<and> length (results st) = i - 1 \<and> current_index st = i
      | At_snapshot i \<Rightarrow>
          students st = roster s \<and> 1 \<le> i \<and> i \<le> n
          \<and> length (results st) = i \<and> current_index st = i
      | _ \<Rightarrow> True)"

definition worker_invariant :: "system \<Rightarrow> bool" where
  "worker_invariant s \<longleftrightarrow> counters_invariant (job s) \<and> at_control s"

text \<open>
  The roster and a run of the end-to-end scenario: Alice succeeds, Bob fails at the
  view link; and the start of a run whose roster file cannot be read.
\<close>

definition alice :: student where
  "alice = \<lparr>name = ''Alice'', roll = ''101'', reg = ''5001''\<rparr>"

definition bob :: student where
  "bob = \<lparr>name = ''Bob'', roll = ''102'', reg = ''5002''\<rparr>"

definition two_student_run :: "event list" where
  "two_student_run =
     [Upload, Reset, Load (Inr [alice, bob]), Store, Driver True,
      Index, Processed ''Success'' [''CS-CS-101'' \<mapsto> ''85''],
      Index, Processed ''Failed: View link not found'' Map.empty]"

definition unreadable_roster_run :: "event list" where
  "unreadable_roster_run = [Upload, Reset, Load (Inl Read_error)]"

section \<open>The expiry ledger and the cleaner (dashboard\_app.py)\<close>

text \<open>
  \<^verbatim>\<open>UPLOAD_EXPIRY\<close> and \<^verbatim>\<open>RESULT_EXPIRY\<close> map a file name to the epoch second at which
  the file expires. A Python dictionary keeps its keys in insertion order and the cleaner
  iterates over it, so a ledger is an association list: \<open>AList.update\<close> is the
  assignment \<^verbatim>\<open>d[k] = v\<close>, \<open>AList.delete\<close> is \<^verbatim>\<open>d.pop(k, None)\<close>, \<open>map_of\<close> is the lookup.
  Time is a real number of seconds; only its order and the sum \<^verbatim>\<open>time.time() + seconds\<close>
  are used.

  The world of the ledger functions holds the two dictionaries, the content of
  \<^verbatim>\<open>.expiries.json\<close> (\<open>None\<close> when the file is missing or cannot be parsed), the names of
  the files in the two folders, and the job state, whose file name pointer the cleaner
  clears.
\<close>

type_synonym ledger = "(string \<times> real) list"

record world =
  UPLOAD_EXPIRY :: ledger
  RESULT_EXPIRY :: ledger
  EXPIRY_FILE :: "(ledger \<times> ledger) option"
  upload_files :: "string set"
  output_files :: "string set"
  STATE :: jobstate

text \<open>
  What happens to the write in \<^verbatim>\<open>save_expiries\<close>: the file is written; or \<^verbatim>\<open>open\<close>
  raises and the file stays as it was; or \<^verbatim>\<open>json.dump\<close> raises after \<^verbatim>\<open>open\<close> has emptied
  the file. The two failures are swallowed by \<^verbatim>\<open>except Exception: pass\<close>.
\<close>

datatype write_outcome = Written | Not_opened | Truncated

definition save_expiries :: "write_outcome \<Rightarrow> world \<Rightarrow> world" where
  "save_expiries wo w =
     (case wo of
        Written \<Rightarrow> w\<lparr>EXPIRY_FILE := Some (UPLOAD_EXPIRY w, RESULT_EXPIRY w)\<rparr>
      | Not_opened \<Rightarrow> w
      | Truncated \<Rightarrow> w\<lparr>EXPIRY_FILE := None\<rparr>)"

text \<open>\<open>now\<close> is the reading of \<^verbatim>\<open>time.time()\<close> inside the function.\<close>

definition set_upload_expiry :: "string \<Rightarrow> real \<Rightarrow> real \<Rightarrow> write_outcome \<Rightarrow> world \<Rightarrow> world" where
  "set_upload_expiry fname seconds_from_now now wo w =
     save_expiries wo
       (w\<lparr>UPLOAD_EXPIRY := AList.update fname (now + seconds_from_now) (UPLOAD_EXPIRY w)\<rparr>)"

definition set_result_expiry :: "string \<Rightarrow> real \<Rightarrow> real \<Rightarrow> write_outcome \<Rightarrow> world \<Rightarrow> world" where
  "set_result_expiry fname seconds_from_now now wo w =
     save_expiries wo
       (w\<lparr>RESULT_EXPIRY := AList.update fname (now + seconds_from_now) (RESULT_EXPIRY w)\<rparr>)"




text \<open>
  The deletion in the cleaner: \<^verbatim>\<open>if os.path.exists(path): os.remove(path)\<close> inside
  \<^verbatim>\<open>try ... except: pass\<close>. Whether the operating system removes an existing file is given
  by \<open>removable\<close>; a refusal is swallowed and the file stays.
\<close>

datatype folder = Uploads | Outputs

definition remove_file :: "bool \<Rightarrow> string \<Rightarrow> string set \<Rightarrow> string set" where
  "remove_file removable fname files =
     (if fname \<in> files \<and> removable then files - {fname} else files)"

text \<open>
  The two \<^verbatim>\<open>for\<close> loops of one iteration of \<^verbatim>\<open>cleaner_loop\<close>, each over a copy of the items
  taken before the loop. An expired entry is popped whether or not the file could be
  removed.
\<close>

fun sweep_uploads :: "(folder \<Rightarrow> string \<Rightarrow> bool) \<Rightarrow> real \<Rightarrow> ledger \<Rightarrow> world \<Rightarrow> world" where
  "sweep_uploads removable now [] w = w"
| "sweep_uploads removable now ((fname, expiry) # items) w =
     sweep_uploads removable now items
       (if now \<ge> expiry
        then w\<lparr>upload_files := remove_file (removable Uploads fname) fname (upload_files w),
               UPLOAD_EXPIRY := AList.delete fname (UPLOAD_EXPIRY w)\<rparr>
        else w)"

definition clear_pointer :: "string \<Rightarrow> jobstate \<Rightarrow> jobstate" where
  "clear_pointer fname st = (if filename st = Some fname then st\<lparr>filename := None\<rparr> else st)"

fun sweep_results :: "(folder \<Rightarrow> string \<Rightarrow> bool) \<Rightarrow> real \<Rightarrow> ledger \<Rightarrow> world \<Rightarrow> world" where
  "sweep_results removable now [] w = w"
| "sweep_results removable now ((fname, expiry) # items) w =
     sweep_results removable now items
       (if now \<ge> expiry
        then w\<lparr>output_files := remove_file (removable Outputs fname) fname (output_files w),
               RESULT_EXPIRY := AList.delete fname (RESULT_EXPIRY w),
               STATE := clear_pointer fname (STATE w)\<rparr>
        else w)"

definition sweep :: "(folder \<Rightarrow> string \<Rightarrow> bool) \<Rightarrow> real \<Rightarrow> world \<Rightarrow> world" where
  "sweep removable now w =
     (let w1 = sweep_uploads removable now (UPLOAD_EXPIRY w) w
      in sweep_results removable now (RESULT_EXPIRY w1) w1)"

text \<open>
  \<^verbatim>\<open>cleaner_loop\<close> never returns. Its iterations so far are given by the list of the
  readings of \<^verbatim>\<open>time.time()\<close> at the head of each iteration; between two readings lies
  \<^verbatim>\<open>time.sleep(60)\<close>.
\<close>

fun cleaner_loop :: "(folder \<Rightarrow> string \<Rightarrow> bool) \<Rightarrow> real list \<Rightarrow> world \<Rightarrow> world" where
  "cleaner_loop removable [] w = w"
| "cleaner_loop removable (now # nows) w = cleaner_loop removable nows (sweep removable now w)"

definition SWEEP_INTERVAL :: real where
  "SWEEP_INTERVAL = 60"

text \<open>The readings of \<open>n\<close> iterations that start at \<open>t0\<close> and lie one pause apart.\<close>

definition periodic_readings :: "real \<Rightarrow> nat \<Rightarrow> real list" where
  "periodic_readings t0 n = map (\<lambda>k. t0 + SWEEP_INTERVAL * real k) [0..<n]"

text \<open>
  An artifact is gone from the results namespace: no ledger entry, no file, and the job
  state does not point at it.
\<close>

definition evicted :: "string \<Rightarrow> world \<Rightarrow> bool" where
  "evicted fname w \<longleftrightarrow>
     map_of (RESULT_EXPIRY w) fname = None
     \<and> fname \<notin> output_files w
     \<and> filename (STATE w) \<noteq> Some fname"

text \<open>
  What the cleaner achieves for a report whatever the operating system answers: no ledger
  entry, the job state does not point at the report, and no file if the operating system
  lets the file be removed. From \<open>w\<close> to \<open>w'\<close> the report is swept when it is gone in this
  sense in \<open>w'\<close>, the pointer is empty there if it pointed at the report in \<open>w\<close>, and a
  file that the operating system does not let go is still in the folder.
\<close>

definition gone :: "(folder \<Rightarrow> string \<Rightarrow> bool) \<Rightarrow> string \<Rightarrow> world \<Rightarrow> bool" where
  "gone removable fname w \<longleftrightarrow>
     map_of (RESULT_EXPIRY w) fname = None
     \<and> filename (STATE w) \<noteq> Some fname
     \<and> (removable Outputs fname \<longrightarrow> fname \<notin> output_files w)"

definition swept :: "(folder \<Rightarrow> string \<Rightarrow> bool) \<Rightarrow> string \<Rightarrow> world \<Rightarrow> world \<Rightarrow> bool" where
  "swept removable fname w w' \<longleftrightarrow>
     gone removable fname w'
     \<and> (filename (STATE w) = Some fname \<longrightarrow> filename (STATE w') = None)
     \<and> (\<not> removable Outputs fname \<and> fname \<in> output_files w \<longrightarrow> fname \<in> output_files w')"

text \<open>The same for an uploaded roster, which no pointer refers to.\<close>

definition upload_gone :: "(folder \<Rightarrow> string \<Rightarrow> bool) \<Rightarrow> string \<Rightarrow> world \<Rightarrow> bool" where
  "upload_gone removable fname w \<longleftrightarrow>
     map_of (UPLOAD_EXPIRY w) fname = None
     \<and> (removable Uploads fname \<longrightarrow> fname \<notin> upload_files w)"

definition upload_swept ::
  "(folder \<Rightarrow> string \<Rightarrow> bool) \<Rightarrow> string \<Rightarrow> world \<Rightarrow> world \<Rightarrow> bool" where
  "upload_swept removable fname w w' \<longleftrightarrow>
     upload_gone removable fname w'
     \<and> (\<not> removable Uploads fname \<and> fname \<in> upload_files w \<longrightarrow> fname \<in> upload_files w')"

text \<open>
  The two kinds of artifact side by side: the dictionary and the files of a folder, the
  registration in it, and what the cleaner achieves in it.
\<close>

definition ledger_of :: "folder \<Rightarrow> world \<Rightarrow> ledger" where
  "ledger_of d w = (case d of Uploads \<Rightarrow> UPLOAD_EXPIRY w | Outputs \<Rightarrow> RESULT_EXPIRY w)"

definition files_of :: "folder \<Rightarrow> world \<Rightarrow> string set" where
  "files_of d w = (case d of Uploads \<Rightarrow> upload_files w | Outputs \<Rightarrow> output_files w)"

definition set_expiry ::
  "folder \<Rightarrow> string \<Rightarrow> real \<Rightarrow> real \<Rightarrow> write_outcome \<Rightarrow> world \<Rightarrow> world" where
  "set_expiry d fname seconds_from_now now wo w =
     (case d of
        Uploads \<Rightarrow> set_upload_expiry fname seconds_from_now now wo w
      | Outputs \<Rightarrow> set_result_expiry fname seconds_from_now now wo w)"

definition swept_in ::
  "folder \<Rightarrow> (folder \<Rightarrow> string \<Rightarrow> bool) \<Rightarrow> string \<Rightarrow> world \<Rightarrow> world \<Rightarrow> bool" where
  "swept_in d removable fname w w' \<longleftrightarrow>
     map_of (ledger_of d w') fname = None
     \<and> (d = Outputs \<longrightarrow>
          filename (STATE w') \<noteq> Some fname
          \<and> (filename (STATE w) = Some fname \<longrightarrow> filename (STATE w') = None))
     \<and> (removable d fname \<longrightarrow> fname \<notin> files_of d w')
     \<and> (\<not> removable d fname \<and> fname \<in> files_of d w \<longrightarrow> fname \<in> files_of d w')"


text \<open>
  A fresh process, and the world after a report was registered at second 0 for twenty
  minutes with the report on disk and the job state pointing at it.
\<close>

definition world_initial :: world where
  "world_initial =
     \<lparr>UPLOAD_EXPIRY = [], RESULT_EXPIRY = [], EXPIRY_FILE = None,
      upload_files = {}, output_files = {}, STATE = STATE_initial\<rparr>"

definition report_registered :: world where
  "report_registered =
     set_result_expiry ''Class Semester result.xlsx'' (20 * 60) 0 Written
       (world_initial\<lparr>output_files := {''Class Semester result.xlsx''},
                       STATE := STATE_initial\<lparr>filename := Some ''Class Semester result.xlsx''\<rparr>\<rparr>)"

definition always_removable :: "folder \<Rightarrow> string \<Rightarrow> bool" where
  "always_removable d fname = True"

text \<open>
  A roster uploaded at second 0 and kept for ten minutes; and an operating system that
  refuses every removal (the file is open in another program, say).
\<close>

definition roster_registered :: world where
  "roster_registered =
     set_upload_expiry ''roster.xlsx'' (10 * 60) 0 Written
       (world_initial\<lparr>upload_files := {''roster.xlsx''}\<rparr>)"

definition never_removable :: "folder \<Rightarrow> string \<Rightarrow> bool" where
  "never_removable d fname = False"

section \<open>Reading the roster (worker\_process and run\_cli)\<close>

text \<open>
  Both orchestrators read the roster with the same loop over the rows of the data frame.
  A cell of the frame is missing (NaN), a whole number, a floating point number (its
  value a real number) or text. The frame is taken to have the three columns; a sheet
  without one of them raises \<^verbatim>\<open>KeyError\<close> at the first row.
\<close>

datatype cell = NaN | Int_cell int | Float_cell real | Str_cell string

record roster_row =
  Student_Name :: cell
  Roll_Number :: cell
  Registration_Number :: cell

definition isna :: "cell \<Rightarrow> bool" where
  "isna c \<longleftrightarrow> c = NaN"

definition is_digit :: "char \<Rightarrow> bool" where
  "is_digit c \<longleftrightarrow> c \<in> set ''0123456789''"

definition digit_value :: "char \<Rightarrow> nat" where
  "digit_value c = of_char c - 48"

definition nat_of_digits :: "string \<Rightarrow> nat" where
  "nat_of_digits s = foldl (\<lambda>n c. 10 * n + digit_value c) 0 s"

text \<open>
  The literals \<^verbatim>\<open>int(str)\<close> accepts in base ten, after stripping white space and one
  sign: digits, with single underscores between digits.
\<close>

fun digit_groups :: "string \<Rightarrow> bool" where
  "digit_groups [] = False"
| "digit_groups [c] = is_digit c"
| "digit_groups (c # d # cs) =
     (is_digit c \<and> (if d = CHR ''_'' then digit_groups cs else digit_groups (d # cs)))"

definition int_of_str :: "string \<Rightarrow> error + int" where
  "int_of_str s =
     (let t = strip s;
          negative = (t \<noteq> [] \<and> hd t = CHR ''-'');
          body = (if t \<noteq> [] \<and> (hd t = CHR ''-'' \<or> hd t = CHR ''+'') then tl t else t)
      in if digit_groups body
         then Inr ((if negative then - 1 else 1) * int (nat_of_digits (filter is_digit body)))
         else Inl Value_error)"

text \<open>\<^verbatim>\<open>int(x)\<close> of a cell: a float is cut towards zero, text is parsed, NaN raises.\<close>

definition py_int :: "cell \<Rightarrow> error + int" where
  "py_int c =
     (case c of
        NaN \<Rightarrow> Inl Value_error
      | Int_cell i \<Rightarrow> Inr i
      | Float_cell x \<Rightarrow> Inr (if x < 0 then - \<lfloor>- x\<rfloor> else \<lfloor>x\<rfloor>)
      | Str_cell s \<Rightarrow> int_of_str s)"

text \<open>\<^verbatim>\<open>str(n)\<close> of an integer: its decimal digits, with a minus sign when negative.\<close>

definition digit_char :: "nat \<Rightarrow> char" where
  "digit_char d = ''0123456789'' ! d"

function str_of_nat :: "nat \<Rightarrow> string" where
  "str_of_nat n =
     (if n < 10 then [digit_char n]
      else str_of_nat (n div 10) @ [digit_char (n mod 10)])"
  by pat_completeness auto
termination
  by (relation "measure id") auto

declare str_of_nat.simps [simp del]

definition str_of_int :: "int \<Rightarrow> string" where
  "str_of_int i = (if i < 0 then CHR ''-'' # str_of_nat (nat (- i)) else str_of_nat (nat i))"

text \<open>
  \<^verbatim>\<open>str(x)\<close> of a cell. How Python prints a float is not modelled: it is the parameter
  \<open>float_str\<close>.
\<close>

definition py_str :: "(real \<Rightarrow> string) \<Rightarrow> cell \<Rightarrow> string" where
  "py_str float_str c =
     (case c of
        NaN \<Rightarrow> ''nan''
      | Int_cell i \<Rightarrow> str_of_int i
      | Float_cell x \<Rightarrow> float_str x
      | Str_cell s \<Rightarrow> s)"

text \<open>
  The loop over the rows (dashboard\_app.py lines 157 to 165, Result\_Downloader.py lines
  368 to 376). A row is skipped when one of its three cells is missing. Otherwise the
  dictionary is built: the name first, then \<^verbatim>\<open>int\<close> of the roll number, then \<^verbatim>\<open>int\<close> of the
  registration number; the first \<^verbatim>\<open>ValueError\<close> leaves the loop and the function.
\<close>

fun load_students :: "(real \<Rightarrow> string) \<Rightarrow> roster_row list \<Rightarrow> error + student list" where
  "load_students float_str [] = Inr []"
| "load_students float_str (row # rows) =
     (if isna (Roll_Number row) \<or> isna (Registration_Number row) \<or> isna (Student_Name row)
      then load_students float_str rows
      else
        (case py_int (Roll_Number row) of
           Inl e \<Rightarrow> Inl e
         | Inr a \<Rightarrow>
             (case py_int (Registration_Number row) of
                Inl e \<Rightarrow> Inl e
              | Inr b \<Rightarrow>
                  (case load_students float_str rows of
                     Inl e \<Rightarrow> Inl e
                   | Inr studs \<Rightarrow>
                       Inr (\<lparr>name = strip (py_str float_str (Student_Name row)),
                             roll = str_of_int a, reg = str_of_int b\<rparr> # studs)))))"

text \<open>
  The words of the claim: a row is present when none of the three cells is missing, a
  cell is convertible when \<^verbatim>\<open>int\<close> returns, and the record of a present, convertible row.
\<close>

definition present :: "roster_row \<Rightarrow> bool" where
  "present row \<longleftrightarrow>
     Student_Name row \<noteq> NaN \<and> Roll_Number row \<noteq> NaN \<and> Registration_Number row \<noteq> NaN"

definition convertible :: "cell \<Rightarrow> bool" where
  "convertible c \<longleftrightarrow> (case py_int c of Inl e \<Rightarrow> False | Inr i \<Rightarrow> True)"

definition int_value :: "cell \<Rightarrow> int" where
  "int_value c = (case py_int c of Inl e \<Rightarrow> 0 | Inr i \<Rightarrow> i)"

definition record_of :: "(real \<Rightarrow> string) \<Rightarrow> roster_row \<Rightarrow> student" where
  "record_of float_str row =
     \<lparr>name = strip (py_str float_str (Student_Name row)),
      roll = str_of_int (int_value (Roll_Number row)),
      reg = str_of_int (int_value (Registration_Number row))\<rparr>"

text \<open>Example rosters: one with a missing cell, one with a roll number that is no number.\<close>

definition roster_with_gap :: "roster_row list" where
  "roster_with_gap =
     [\<lparr>Student_Name = Str_cell ''Alice'', Roll_Number = Float_cell 101,
       Registration_Number = Int_cell 5001\<rparr>,
      \<lparr>Student_Name = Str_cell ''Carol'', Roll_Number = NaN,
       Registration_Number = Int_cell 5003\<rparr>,
      \<lparr>Student_Name = Str_cell '' Bob '', Roll_Number = Str_cell ''102'',
       Registration_Number = Int_cell 5002\<rparr>]"

definition roster_with_text :: "roster_row list" where
  "roster_with_text =
     [\<lparr>Student_Name = Str_cell ''Alice'', Roll_Number = Str_cell ''abc'',
       Registration_Number = Int_cell 5001\<rparr>,
      \<lparr>Student_Name = Str_cell ''Bob'', Roll_Number = Int_cell 102,
       Registration_Number = Int_cell 5002\<rparr>]"

section \<open>The extraction engine (Result\_Downloader.py, extract\_data\_from\_page)\<close>

subsection \<open>Text\<close>

text \<open>
  The characters of the regular expression class \<^verbatim>\<open>\w\<close>, and \<^verbatim>\<open>str.upper()\<close>, on ASCII text.
\<close>

definition is_upper :: "char \<Rightarrow> bool" where
  "is_upper c \<longleftrightarrow> c \<in> set ''ABCDEFGHIJKLMNOPQRSTUVWXYZ''"

definition is_lower :: "char \<Rightarrow> bool" where
  "is_lower c \<longleftrightarrow> c \<in> set ''abcdefghijklmnopqrstuvwxyz''"

definition is_word :: "char \<Rightarrow> bool" where
  "is_word c \<longleftrightarrow> is_upper c \<or> is_lower c \<or> is_digit c \<or> c = CHR ''_''"

definition upper_char :: "char \<Rightarrow> char" where
  "upper_char c =
     (case map_of (zip ''abcdefghijklmnopqrstuvwxyz'' ''ABCDEFGHIJKLMNOPQRSTUVWXYZ'') c of
        None \<Rightarrow> c
      | Some u \<Rightarrow> u)"

definition upper :: "string \<Rightarrow> string" where
  "upper s = map upper_char s"

text \<open>\<^verbatim>\<open>sub in s\<close> and \<^verbatim>\<open>sep.join(parts)\<close>.\<close>

primrec contains :: "string \<Rightarrow> string \<Rightarrow> bool" where
  "contains sub [] = (sub = [])"
| "contains sub (c # cs) = (take (length sub) (c # cs) = sub \<or> contains sub cs)"

fun join :: "string \<Rightarrow> string list \<Rightarrow> string" where
  "join sep [] = []"
| "join sep [x] = x"
| "join sep (x # y # ys) = x @ sep @ join sep (y # ys)"

subsection \<open>The regular expressions\<close>

text \<open>
  The patterns of the function are sequences of two kinds of items: the word boundary
  \<^verbatim>\<open>\b\<close>, and a character class repeated between a least and a greatest number of times,
  greedily (\<^verbatim>\<open>[0-9]{2,3}\<close>, \<^verbatim>\<open>[IVX]+\<close>, \<^verbatim>\<open>[A-Z]?\<close>, a single character). The matcher is the
  backtracking matcher of \<^verbatim>\<open>re\<close>: a repetition first takes as many characters as it can and
  gives them back one by one while the rest of the pattern fails.

  A position in the text is the character before it, if any, and the text from it on.
\<close>

datatype atom = Bdry | Rep "char \<Rightarrow> bool" nat "nat option"

definition word_at :: "char option \<Rightarrow> bool" where
  "word_at c = (case c of None \<Rightarrow> False | Some x \<Rightarrow> is_word x)"

definition next_char :: "string \<Rightarrow> char option" where
  "next_char s = (case s of [] \<Rightarrow> None | c # cs \<Rightarrow> Some c)"

definition prev_char :: "char option \<Rightarrow> string \<Rightarrow> nat \<Rightarrow> char option" where
  "prev_char prev s k = (if k = 0 then prev else Some (s ! (k - 1)))"

definition most :: "nat option \<Rightarrow> nat \<Rightarrow> nat" where
  "most hi n = (case hi of None \<Rightarrow> n | Some h \<Rightarrow> min h n)"

text \<open>The counts \<open>k\<close>, \<open>k - 1\<close>, ..., \<open>lo\<close> are tried in this order; the first success is taken.\<close>

primrec first_count :: "(nat \<Rightarrow> nat option) \<Rightarrow> nat \<Rightarrow> nat \<Rightarrow> nat option" where
  "first_count f lo 0 = (if lo = 0 then f 0 else None)"
| "first_count f lo (Suc k) =
     (if Suc k < lo then None
      else (case f (Suc k) of Some r \<Rightarrow> Some r | None \<Rightarrow> first_count f lo k))"

text \<open>The length of the match of the pattern at a position, if there is one.\<close>

primrec match_here :: "atom list \<Rightarrow> char option \<Rightarrow> string \<Rightarrow> nat option" where
  "match_here [] prev s = Some 0"
| "match_here (a # as) prev s =
     (case a of
        Bdry \<Rightarrow>
          if word_at prev \<noteq> word_at (next_char s) then match_here as prev s else None
      | Rep p lo hi \<Rightarrow>
          first_count
            (\<lambda>k. map_option (\<lambda>m. k + m) (match_here as (prev_char prev s k) (drop k s)))
            lo (most hi (length (takeWhile p s))))"

text \<open>\<^verbatim>\<open>re.search\<close>: the text of the match at the leftmost position that has one.\<close>

fun search_from :: "atom list \<Rightarrow> char option \<Rightarrow> string \<Rightarrow> string option" where
  "search_from pat prev [] = map_option (\<lambda>m. []) (match_here pat prev [])"
| "search_from pat prev (c # cs) =
     (case match_here pat prev (c # cs) of
        Some m \<Rightarrow> Some (take m (c # cs))
      | None \<Rightarrow> search_from pat (Some c) cs)"

definition search :: "atom list \<Rightarrow> string \<Rightarrow> string option" where
  "search pat s = search_from pat None s"

text \<open>
  \<^verbatim>\<open>re.findall\<close>: the matches from left to right, each search starting where the last
  match ended; after an empty match the search moves on by one character.
\<close>

function findall_from :: "atom list \<Rightarrow> char option \<Rightarrow> string \<Rightarrow> string list" where
  "findall_from pat prev [] = (case match_here pat prev [] of None \<Rightarrow> [] | Some m \<Rightarrow> [[]])"
| "findall_from pat prev (c # cs) =
     (case match_here pat prev (c # cs) of
        None \<Rightarrow> findall_from pat (Some c) cs
      | Some m \<Rightarrow>
          take m (c # cs)
          # findall_from pat (Some ((c # cs) ! (max m 1 - 1))) (drop (max m 1) (c # cs)))"
  by pat_completeness auto
termination
  by (relation "measure (\<lambda>(pat, prev, s). length s)") auto

definition findall :: "atom list \<Rightarrow> string \<Rightarrow> string list" where
  "findall pat s = findall_from pat None s"

text \<open>
  A word of the pattern under \<^verbatim>\<open>re.IGNORECASE\<close>: each letter matches itself in either case.
\<close>

definition literal_ci :: "string \<Rightarrow> atom list" where
  "literal_ci lit = map (\<lambda>c. Rep (\<lambda>x. upper_char x = c) 1 (Some 1)) lit"

text \<open>
  The three subject patterns. Each is anchored at the start of the cell by \<^verbatim>\<open>^\<close> and ends
  with the class \<^verbatim>\<open>[\s:]\<close>, which lies outside the group.
\<close>

definition dash :: atom where
  "dash = Rep (\<lambda>c. c = CHR ''-'') 1 (Some 1)"

definition separator :: atom where
  "separator = Rep (\<lambda>c. is_space c \<or> c = CHR '':'') 1 (Some 1)"

definition subject_patterns :: "atom list list" where
  "subject_patterns =
     [[Rep is_upper 2 (Some 3), dash, Rep is_upper 2 (Some 4), dash,
       Rep is_digit 2 (Some 3), Rep is_upper 0 (Some 1), separator],
      [Rep is_upper 2 (Some 3), dash, Rep is_upper 2 (Some 4), dash,
       Rep (\<lambda>c. c \<in> set ''IVX'') 1 None, separator],
      [Rep is_upper 2 (Some 3), dash, Rep is_digit 2 (Some 3), Rep is_upper 0 (Some 1),
       separator]]"

text \<open>
  The loop over the patterns, left at the first one that matches: \<^verbatim>\<open>match.group(1)\<close> is
  the match without its last character.
\<close>

fun first_group :: "atom list list \<Rightarrow> string \<Rightarrow> string option" where
  "first_group [] s = None"
| "first_group (p # ps) s =
     (case match_here p None s of
        Some m \<Rightarrow> Some (take (m - 1) s)
      | None \<Rightarrow> first_group ps s)"

definition subject_code :: "string \<Rightarrow> string option" where
  "subject_code first_cell = first_group subject_patterns first_cell"

text \<open>The patterns for the marks, the first three searched with \<^verbatim>\<open>re.IGNORECASE\<close>.\<close>

definition number_f_pattern :: "atom list" where
  "number_f_pattern = Bdry # (Rep is_digit 1 (Some 3) # literal_ci ''F'') @ [Bdry]"

definition f_pattern :: "atom list" where
  "f_pattern = Bdry # literal_ci ''F'' @ [Bdry]"

definition number_pattern :: "atom list" where
  "number_pattern = Bdry # [Rep is_digit 2 (Some 3)] @ [Bdry]"

definition fail_patterns :: "atom list list" where
  "fail_patterns =
     [Bdry # literal_ci ''FAIL'' @ [Bdry],
      Bdry # literal_ci ''AB'' @ [Bdry],
      Bdry # literal_ci ''ABSENT'' @ [Bdry]]"

subsection \<open>Rows, tables and the page\<close>

text \<open>
  Lines 100 to 124: the token a row's text yields, if any. The number with a trailing F
  comes first, then the letter F alone, then the last number between 10 and 100, then the
  words for a fail. \<^verbatim>\<open>int(n)\<close> is applied to the matches of \<^verbatim>\<open>[0-9]{2,3}\<close> only.
\<close>

definition mark_token :: "string \<Rightarrow> string option" where
  "mark_token row_text =
     (case search number_f_pattern row_text of
        Some t \<Rightarrow> Some (upper t)
      | None \<Rightarrow>
          if search f_pattern row_text \<noteq> None then Some ''F''
          else
            (let numbers = findall number_pattern row_text;
                 valid_marks =
                   filter (\<lambda>n. 10 \<le> nat_of_digits n \<and> nat_of_digits n \<le> 100) numbers
             in if valid_marks \<noteq> [] then Some (last valid_marks)
                else if list_ex (\<lambda>p. search p row_text \<noteq> None) fail_patterns
                     then Some ''F'' else None))"

text \<open>
  A row is the list of the texts of its cells. Lines 83 to 125: a row with fewer than
  three cells, or whose first cell shows no subject code, or whose text yields no token,
  leaves the dictionary as it is; otherwise the token is assigned to the code.
\<close>

definition row_text :: "string list \<Rightarrow> string" where
  "row_text cells = join '' '' (map strip cells)"

definition process_row :: "string list \<Rightarrow> marks \<Rightarrow> marks" where
  "process_row cells marks_data =
     (if length cells \<ge> 3
      then (case subject_code (strip (cells ! 0)) of
              None \<Rightarrow> marks_data
            | Some code \<Rightarrow>
                (case mark_token (row_text cells) of
                   None \<Rightarrow> marks_data
                 | Some tok \<Rightarrow> marks_data(code \<mapsto> tok)))
      else marks_data)"

text \<open>
  A table as BeautifulSoup hands it over: its text and its rows. Only a table whose text
  shows TOTAL or MARKS in some case is read, and its first row is skipped.
\<close>

record table =
  table_text :: string
  table_rows :: "string list list"

definition marks_table :: "table \<Rightarrow> bool" where
  "marks_table t \<longleftrightarrow>
     contains ''TOTAL'' (upper (table_text t)) \<or> contains ''MARKS'' (upper (table_text t))"

definition process_table :: "table \<Rightarrow> marks \<Rightarrow> marks" where
  "process_table t marks_data =
     (if marks_table t
      then foldl (\<lambda>m cells. process_row cells m) marks_data (tl (table_rows t))
      else marks_data)"

text \<open>
  The page is the list of its tables, or the exception raised while it is fetched and
  parsed; the exception is caught and the empty dictionary returned.
\<close>

definition extract_data_from_page :: "error + table list \<Rightarrow> marks" where
  "extract_data_from_page page =
     (case page of
        Inl e \<Rightarrow> Map.empty
      | Inr tables \<Rightarrow> foldl (\<lambda>m t. process_table t m) Map.empty tables)"

subsection \<open>The words of the claims\<close>

text \<open>
  The words of a text are its maximal runs of word characters. A pattern between two
  word boundaries whose classes hold word characters only, and which cannot match the
  empty text at its start, picks whole words: those that \<open>fits\<close> accepts.
\<close>

function words :: "string \<Rightarrow> string list" where
  "words [] = []"
| "words (c # cs) =
     (if is_word c then takeWhile is_word (c # cs) # words (dropWhile is_word cs)
      else words cs)"
  by pat_completeness auto
termination
  by (relation "measure length") (auto simp: length_dropWhile_le less_Suc_eq_le)

fun fits :: "atom list \<Rightarrow> string \<Rightarrow> bool" where
  "fits [] w = (w = [])"
| "fits (Bdry # as) w = fits as w"
| "fits (Rep p lo hi # as) w =
     (\<exists>k\<le>length w. lo \<le> k \<and> k \<le> most hi k \<and> list_all p (take k w) \<and> fits as (drop k w))"

fun word_atom :: "atom \<Rightarrow> bool" where
  "word_atom Bdry = False"
| "word_atom (Rep p lo hi) = (\<forall>c. p c \<longrightarrow> is_word c)"

fun starts_nonempty :: "atom list \<Rightarrow> bool" where
  "starts_nonempty (Rep p lo hi # as) = (1 \<le> lo)"
| "starts_nonempty as = False"

text \<open>
  The tokens: one to three digits and the letter F in either case; the letter F alone;
  a number of two or three digits; a number between 10 and 100; one of the three words
  for a fail.
\<close>

definition digits :: "string \<Rightarrow> bool" where
  "digits s \<longleftrightarrow> list_all is_digit s"

definition numeric_fail_word :: "string \<Rightarrow> bool" where
  "numeric_fail_word w \<longleftrightarrow>
     w \<noteq> [] \<and> upper_char (last w) = CHR ''F''
     \<and> 1 \<le> length (butlast w) \<and> length (butlast w) \<le> 3 \<and> digits (butlast w)"

definition f_word :: "string \<Rightarrow> bool" where
  "f_word w \<longleftrightarrow> upper w = ''F''"

definition number_word :: "string \<Rightarrow> bool" where
  "number_word w \<longleftrightarrow> 2 \<le> length w \<and> length w \<le> 3 \<and> digits w"

definition plausible :: "string \<Rightarrow> bool" where
  "plausible n \<longleftrightarrow> 10 \<le> nat_of_digits n \<and> nat_of_digits n \<le> 100"

definition fail_word :: "string \<Rightarrow> bool" where
  "fail_word w \<longleftrightarrow> upper w = ''FAIL'' \<or> upper w = ''AB'' \<or> upper w = ''ABSENT''"

text \<open>The composite token as it is stored: one to three digits and a capital F.\<close>

definition numeric_fail_token :: "string \<Rightarrow> bool" where
  "numeric_fail_token v \<longleftrightarrow>
     v \<noteq> [] \<and> last v = CHR ''F''
     \<and> 1 \<le> length (butlast v) \<and> length (butlast v) \<le> 3 \<and> digits (butlast v)"

definition stored_token :: "string \<Rightarrow> bool" where
  "stored_token v \<longleftrightarrow>
     v = ''F'' \<or> numeric_fail_token v \<or> number_word v \<and> plausible v"

text \<open>
  The data rows of a page in the order in which they are read, and what a row writes:
  its code and token.
\<close>

definition data_rows :: "table list \<Rightarrow> string list list" where
  "data_rows tables = concat (map (\<lambda>t. if marks_table t then tl (table_rows t) else []) tables)"

definition row_entry :: "string list \<Rightarrow> (string \<times> string) option" where
  "row_entry cells =
     (if length cells \<ge> 3
      then (case subject_code (strip (cells ! 0)) of
              None \<Rightarrow> None
            | Some code \<Rightarrow> map_option (\<lambda>tok. (code, tok)) (mark_token (row_text cells)))
      else None)"

definition entries :: "string \<Rightarrow> table list \<Rightarrow> (string \<times> string) list" where
  "entries code tables =
     filter (\<lambda>e. fst e = code) (List.map_filter row_entry (data_rows tables))"

subsection \<open>Example pages\<close>

text \<open>
  A table in which the code CS-101 stands in two rows; a row with a one digit number
  before the F; a row with the letter F, a number with F and a number; and the row of
  the positional law.
\<close>

definition repeated_code_page :: "table list" where
  "repeated_code_page =
     [\<lparr>table_text = ''SubjectMaxMarksCS-101: Maths10045CS-101: Maths10067'',
       table_rows =
         [[''Subject'', ''Max'', ''Marks''],
          [''CS-101: Maths'', ''100'', ''45''],
          [''CS-101: Maths'', ''100'', ''67'']]\<rparr>]"

definition low_fail_page :: "table list" where
  "low_fail_page =
     [\<lparr>table_text = ''SubjectMaxMarksCS-101: Maths1005F'',
       table_rows =
         [[''Subject'', ''Max'', ''Marks''],
          [''CS-101: Maths'', ''100'', ''5F'']]\<rparr>]"


definition max_obtained_row :: "string list" where
  "max_obtained_row = [''CS-201: Physics'', ''Max:100'', ''Obtained:76'']"

section \<open>Properties of the status route\<close>

lemma failed_submit_results:
  "0 \<le> idx \<Longrightarrow> idx < int (length (results st)) \<Longrightarrow>
   results (snd (failed_submit idx manual outname saved st)) =
     (results st)[nat idx :=
        (results st ! nat idx)\<lparr>marks := parse_manual manual, r_status := ''Success (manual)''\<rparr>]"
  by (simp add: failed_submit_def Let_def)

text \<open>
  Claim C10. The failure list of the status reply holds exactly the results whose status
  is not the string \<open>Success\<close>, in the order of the result list; and a result rewritten
  by a manual correction, whose status is then \<open>Success (manual)\<close>, is a member of the
  failure list of every later status reply.
\<close>

theorem status_failed_list_non_success:
  "reply_failed_list (status st) = filter (\<lambda>r. r_status r \<noteq> ''Success'') (results st)
   \<and> (0 \<le> idx \<and> idx < int (length (results st)) \<longrightarrow>
        (let st' = snd (failed_submit idx manual outname saved st)
         in r_status (results st' ! nat idx) = ''Success (manual)''
            \<and> results st' ! nat idx \<in> set (reply_failed_list (status st'))))"
proof -
  have a: "reply_failed_list (status st) = filter (\<lambda>r. r_status r \<noteq> ''Success'') (results st)"
    by (simp add: status_def failed_list_def Let_def)
  have b: "r_status (results st' ! nat idx) = ''Success (manual)''
           \<and> results st' ! nat idx \<in> set (reply_failed_list (status st'))"
    if h: "0 \<le> idx" "idx < int (length (results st))"
      and st': "st' = snd (failed_submit idx manual outname saved st)" for st'
  proof -
    have len: "nat idx < length (results st)" using h by simp
    have r: "results st' =
      (results st)[nat idx :=
        (results st ! nat idx)\<lparr>marks := parse_manual manual, r_status := ''Success (manual)''\<rparr>]"
      using failed_submit_results [OF h] st' by simp
    have s: "r_status (results st' ! nat idx) = ''Success (manual)''"
      using len by (simp add: r)
    have m: "results st' ! nat idx \<in> set (results st')"
      using len by (intro nth_mem) (simp add: r)
    have "results st' ! nat idx \<in> set (filter (\<lambda>r. r_status r \<noteq> ''Success'') (results st'))"
      using m s by simp
    then show ?thesis using s by (simp add: status_def failed_list_def Let_def)
  qed
  show ?thesis using a b by (simp add: Let_def)
qed

theorem status_failed_list_non_success_witness:
  "(0::int) \<le> 0 \<and> 0 < int (length (results (STATE_initial\<lparr>results := [bob_failed]\<rparr>)))
   \<and> reply_failed_list (status (STATE_initial\<lparr>results := [bob_failed]\<rparr>)) = [bob_failed]
   \<and> r_status (results (snd (failed_submit 0 ''CS-CS-101,Bob,100,40'' ''out.xlsx'' True
          (STATE_initial\<lparr>results := [bob_failed]\<rparr>))) ! nat 0) = ''Success (manual)''
   \<and> results (snd (failed_submit 0 ''CS-CS-101,Bob,100,40'' ''out.xlsx'' True
          (STATE_initial\<lparr>results := [bob_failed]\<rparr>))) ! nat 0
        \<in> set (reply_failed_list (status (snd (failed_submit 0 ''CS-CS-101,Bob,100,40''
          ''out.xlsx'' True (STATE_initial\<lparr>results := [bob_failed]\<rparr>)))))"
  using status_failed_list_non_success
    [of "STATE_initial\<lparr>results := [bob_failed]\<rparr>" 0 "''CS-CS-101,Bob,100,40''"
        "''out.xlsx''" True]
  by (simp add: Let_def STATE_initial_def bob_failed_def)

section \<open>Properties of the batch worker\<close>

lemma failed_submit_frame:
  "length (results (snd (failed_submit idx manual outname saved st))) = length (results st)"
  "successful (snd (failed_submit idx manual outname saved st)) = successful st"
  "failed (snd (failed_submit idx manual outname saved st)) = failed st"
  "current_index (snd (failed_submit idx manual outname saved st)) = current_index st"
  "students (snd (failed_submit idx manual outname saved st)) = students st"
  "running (snd (failed_submit idx manual outname saved st)) = running st"
  by (auto simp: failed_submit_def Let_def)

lemma append_result_frame:
  "successful (append_result r st) + failed (append_result r st) = Suc (successful st + failed st)"
  "results (append_result r st) = results st @ [r]"
  "current_index (append_result r st) = current_index st"
  "students (append_result r st) = students st"
  "running (append_result r st) = running st"
  by (simp_all add: append_result_def Let_def)

lemma step_simps:
  "step Upload s = (if alive (control s) then None else Some (s\<lparr>control := At_reset\<rparr>))"
  "step Reset s = (if control s = At_reset
          then Some (s\<lparr>job := reset_state (job s), control := At_load\<rparr>) else None)"
  "step (Load (Inl e)) s = (if control s = At_load then Some (s\<lparr>control := Crashed e\<rparr>) else None)"
  "step (Load (Inr studs)) s = (if control s = At_load then Some (s\<lparr>roster := studs, control := At_store\<rparr>) else None)"
  "step Store s = (if control s = At_store
          then Some (s\<lparr>job := (job s)\<lparr>students := roster s\<rparr>, control := At_driver\<rparr>)
          else None)"
  "step (Driver started) s = (if control s = At_driver
          then Some (s\<lparr>control := (if started then At_loop 1 else Crashed Driver_error)\<rparr>)
          else None)"
  "step (Manual idx manual outname saved) s = Some (s\<lparr>job := snd (failed_submit idx manual outname saved (job s))\<rparr>)"
  "step (Detailed_info info) s = Some (s\<lparr>job := (job s)\<lparr>subject_info := info\<rparr>\<rparr>)"
  "step (Detailed_file outname) s = Some (s\<lparr>job := (job s)\<lparr>filename := Some outname\<rparr>\<rparr>)"
  "step (Cleaned fname) s = Some (s\<lparr>job := (if filename (job s) = Some fname
                           then (job s)\<lparr>filename := None\<rparr> else job s)\<rparr>)"
  by (simp_all add: step_def)

lemma step_loop_simps:
  "control s = At_loop i \<Longrightarrow> step Index s =
     (if i \<le> length (roster s)
               then Some (s\<lparr>job := (job s)\<lparr>current_index := i\<rparr>, control := At_process i\<rparr>)
               else None)"
  "control s = At_loop i \<Longrightarrow> step Quit s =
     (if length (roster s) < i
               then Some (s\<lparr>job := (job s)\<lparr>running := False\<rparr>, control := Finished\<rparr>)
               else None)"
  "control s = At_process i \<Longrightarrow> step (Processed status_text mk) s =
      Some (s\<lparr>job := append_result (make_result (roster s ! (i - 1)) status_text mk) (job s),
                       control := (if snapshot_due i (length (roster s))
                                   then At_snapshot i else At_loop (i + 1))\<rparr>)"
  "control s = At_snapshot i \<Longrightarrow> step (Snapshot None) s = Some (s\<lparr>control := Crashed Save_error\<rparr>)"
  "control s = At_snapshot i \<Longrightarrow> step (Snapshot (Some outname)) s =
       Some (s\<lparr>job := (job s)\<lparr>filename := Some outname\<rparr>, control := At_loop (i + 1)\<rparr>)"
  by (simp_all add: step_def)

lemma step_enabled:
  "step Index s = Some s' \<Longrightarrow> \<exists>i. control s = At_loop i"
  "step Quit s = Some s' \<Longrightarrow> \<exists>i. control s = At_loop i"
  "step (Processed status_text mk) s = Some s' \<Longrightarrow> \<exists>i. control s = At_process i"
  "step (Snapshot saved) s = Some s' \<Longrightarrow> \<exists>i. control s = At_snapshot i"
  by (simp_all add: step_def split: control.splits)

lemma frame_invariant:
  assumes "worker_invariant s" "control s' = control s" "roster s' = roster s"
    "length (results (job s')) = length (results (job s))"
    "successful (job s') = successful (job s)" "failed (job s') = failed (job s)"
    "current_index (job s') = current_index (job s)" "students (job s') = students (job s)"
  shows "worker_invariant s'"
  using assms by (cases "control s") (auto simp add: worker_invariant_def counters_invariant_def at_control_def Let_def simp del: length_0_conv)

lemma step_invariant:
  assumes st: "step ev s = Some s'" and i: "worker_invariant s"
  shows "worker_invariant s'"
proof (cases ev)
  case Upload
  then show ?thesis using st i
    by (auto simp: step_simps worker_invariant_def at_control_def Let_def split: if_splits)
next
  case Reset
  then show ?thesis using st i
    by (auto simp: step_simps worker_invariant_def at_control_def Let_def counters_invariant_def reset_state_def split: if_splits)
next
  case (Load x)
  then show ?thesis using st i
    by (cases x) (auto simp: step_simps worker_invariant_def at_control_def Let_def counters_invariant_def split: if_splits)
next
  case Store
  then show ?thesis using st i
    by (auto simp: step_simps worker_invariant_def at_control_def Let_def counters_invariant_def split: if_splits)
next
  case (Driver b)
  then show ?thesis using st i
    by (auto simp: step_simps worker_invariant_def at_control_def Let_def counters_invariant_def split: if_splits)
next
  case Index
  then obtain k where "control s = At_loop k" using st step_enabled(1) by blast
  then show ?thesis using st i Index
    by (auto simp: step_loop_simps worker_invariant_def at_control_def Let_def counters_invariant_def split: if_splits)
next
  case (Processed t m)
  then obtain k where "control s = At_process k" using st step_enabled(3) by blast
  then show ?thesis using st i Processed
    by (auto simp: step_loop_simps worker_invariant_def at_control_def Let_def counters_invariant_def append_result_frame)
next
  case (Snapshot x)
  then obtain k where "control s = At_snapshot k" using st step_enabled(4) by blast
  then show ?thesis using st i Snapshot
    by (cases x) (auto simp: step_loop_simps worker_invariant_def at_control_def Let_def counters_invariant_def)
next
  case Quit
  then obtain k where "control s = At_loop k" using st step_enabled(2) by blast
  then show ?thesis using st i Quit
    by (auto simp: step_loop_simps worker_invariant_def at_control_def Let_def counters_invariant_def split: if_splits)
next
  case (Manual a b c d)
  then have "s' = s\<lparr>job := snd (failed_submit a b c d (job s))\<rparr>" using st by (simp add: step_simps)
  then show ?thesis by (intro frame_invariant [OF i]) (simp_all add: failed_submit_frame)
next
  case (Detailed_info x)
  then have "s' = s\<lparr>job := (job s)\<lparr>subject_info := x\<rparr>\<rparr>" using st by (simp add: step_simps)
  then show ?thesis by (intro frame_invariant [OF i]) simp_all
next
  case (Detailed_file x)
  then have "s' = s\<lparr>job := (job s)\<lparr>filename := Some x\<rparr>\<rparr>" using st by (simp add: step_simps)
  then show ?thesis by (intro frame_invariant [OF i]) simp_all
next
  case (Cleaned x)
  then have "s' = s\<lparr>job := (if filename (job s) = Some x
                           then (job s)\<lparr>filename := None\<rparr> else job s)\<rparr>" using st by (simp add: step_simps)
  then show ?thesis by (intro frame_invariant [OF i]) simp_all
qed

lemma run_invariant: "run evs s = Some s' \<Longrightarrow> worker_invariant s \<Longrightarrow> worker_invariant s'"
  by (induction evs arbitrary: s) (auto split: option.splits dest: step_invariant)

lemma invariant_initial: "worker_invariant system_initial"
  by (simp add: worker_invariant_def system_initial_def STATE_initial_def counters_invariant_def at_control_def)

text \<open>
  Claim C2. In every state that a run of the system reaches, that is in every state a
  reader can see while the lock is free, the two counters add up to the number of
  results, which is at most the current index, which is at most the length of the
  roster held in the job state. The run is any sequence of atomic steps of one worker at
  a time, of manual corrections, of subject submissions and of the cleaner.
\<close>

theorem counters_invariant_reachable:
  "run evs system_initial = Some s \<Longrightarrow>
   successful (job s) + failed (job s) = length (results (job s))
   \<and> length (results (job s)) \<le> current_index (job s)
   \<and> current_index (job s) \<le> length (students (job s))"
  using run_invariant [OF _ invariant_initial, of evs s]
  by (simp add: worker_invariant_def counters_invariant_def)

lemma two_student_run_state:
  "\<exists>s. run two_student_run system_initial = Some s
       \<and> successful (job s) = 1 \<and> failed (job s) = 1 \<and> current_index (job s) = 2"
  by (simp add: two_student_run_def system_initial_def STATE_initial_def step_def
      reset_state_def append_result_def make_result_def snapshot_due_def alice_def bob_def
      Let_def alive_def)

theorem counters_invariant_reachable_witness:
  "\<exists>s. run two_student_run system_initial = Some s
       \<and> successful (job s) = 1 \<and> failed (job s) = 1 \<and> current_index (job s) = 2
       \<and> successful (job s) + failed (job s) = length (results (job s))
       \<and> length (results (job s)) \<le> current_index (job s)
       \<and> current_index (job s) \<le> length (students (job s))"
proof -
  obtain s where r: "run two_student_run system_initial = Some s"
    and c: "successful (job s) = 1" "failed (job s) = 1" "current_index (job s) = 2"
    using two_student_run_state by blast
  show ?thesis
    using counters_invariant_reachable [OF r] r c by blast
qed

lemma crashed_stays_running:
  assumes "control s = Crashed e" "running (job s)" "ev \<noteq> Upload" "step ev s = Some s'"
  shows "control s' = Crashed e \<and> running (job s')"
  using assms
  by (cases ev) (auto simp: step_simps step_def failed_submit_frame split: if_splits sum.splits)

text \<open>
  Claim C3, at the failing input. The roster file cannot be read: the exception leaves
  \<^verbatim>\<open>worker_process\<close>, which has no handler around its body, the thread ends, and the
  job state keeps \<open>running = True\<close>. By \<open>crashed_stays_running\<close> the flag stays set
  until another upload starts a new worker.
\<close>

theorem unreadable_roster_leaves_running:
  "\<exists>s. run unreadable_roster_run system_initial = Some s
       \<and> control s = Crashed Read_error \<and> running (job s)"
  by (simp add: unreadable_roster_run_def system_initial_def STATE_initial_def step_def
      reset_state_def alive_def)

section \<open>Properties of the expiry ledger and the cleaner\<close>

lemma sweep_uploads_frame:
  "RESULT_EXPIRY (sweep_uploads rm now items w) = RESULT_EXPIRY w"
  "output_files (sweep_uploads rm now items w) = output_files w"
  "STATE (sweep_uploads rm now items w) = STATE w"
  "EXPIRY_FILE (sweep_uploads rm now items w) = EXPIRY_FILE w"
  by (induction rm now items w rule: sweep_uploads.induct) simp_all


lemma sweep_results_frame:
  "UPLOAD_EXPIRY (sweep_results rm now items w) = UPLOAD_EXPIRY w"
  "upload_files (sweep_results rm now items w) = upload_files w"
  by (induction rm now items w rule: sweep_results.induct) simp_all

lemma sweep_results_gone:
  "gone rm fname w \<Longrightarrow> gone rm fname (sweep_results rm now items w)"
proof (induction rm now items w rule: sweep_results.induct)
  case (1 rm now w)
  then show ?case by simp
next
  case (2 rm now g expiry items w)
  have "gone rm fname (w\<lparr>output_files := remove_file (rm Outputs g) g (output_files w),
               RESULT_EXPIRY := AList.delete g (RESULT_EXPIRY w),
               STATE := clear_pointer g (STATE w)\<rparr>)"
    using "2.prems" by (auto simp: gone_def remove_file_def clear_pointer_def delete_conv')
  then show ?case using 2 by simp
qed

lemma sweep_results_expired:
  assumes "(fname, expiry) \<in> set items" "expiry \<le> now"
  shows "gone rm fname (sweep_results rm now items w)"
  using assms
proof (induction rm now items w rule: sweep_results.induct)
  case (1 rm now w)
  then show ?case by simp
next
  case (2 rm now g e items w)
  show ?case
  proof (cases "g = fname \<and> e \<le> now")
    case True
    have "gone rm fname (w\<lparr>output_files := remove_file (rm Outputs g) g (output_files w),
               RESULT_EXPIRY := AList.delete g (RESULT_EXPIRY w),
               STATE := clear_pointer g (STATE w)\<rparr>)"
      using True by (auto simp: gone_def remove_file_def clear_pointer_def delete_conv')
    then show ?thesis using True by (simp add: sweep_results_gone)
  next
    case False
    then have "(fname, expiry) \<in> set items" using "2.prems" by auto
    then show ?thesis using 2 by simp
  qed
qed

lemma sweep_results_keeps_or_gone:
  "map_of (RESULT_EXPIRY (sweep_results rm now items w)) fname = map_of (RESULT_EXPIRY w) fname
   \<or> gone rm fname (sweep_results rm now items w)"
proof (induction rm now items w rule: sweep_results.induct)
  case (1 rm now w)
  then show ?case by simp
next
  case (2 rm now g e items w)
  show ?case
  proof (cases "g = fname \<and> e \<le> now")
    case True
    have "gone rm fname (w\<lparr>output_files := remove_file (rm Outputs g) g (output_files w),
               RESULT_EXPIRY := AList.delete g (RESULT_EXPIRY w),
               STATE := clear_pointer g (STATE w)\<rparr>)"
      using True by (auto simp: gone_def remove_file_def clear_pointer_def delete_conv')
    then show ?thesis using True by (simp add: sweep_results_gone)
  next
    case False
    then show ?thesis using 2 by (auto simp: delete_conv')
  qed
qed

lemma sweep_results_file_stays:
  assumes "\<not> rm Outputs fname" "fname \<in> output_files w"
  shows "fname \<in> output_files (sweep_results rm now items w)"
  using assms
proof (induction rm now items w rule: sweep_results.induct)
  case (1 rm now w)
  then show ?case by simp
next
  case (2 rm now g e items w)
  have "fname \<in> remove_file (rm Outputs g) g (output_files w)"
    using "2.prems" by (auto simp: remove_file_def)
  then show ?case using 2 by simp
qed

lemma sweep_gone:
  assumes "gone rm fname w"
  shows "gone rm fname (sweep rm now w)"
proof -
  have "gone rm fname (sweep_uploads rm now (UPLOAD_EXPIRY w) w)"
    using assms by (simp add: gone_def sweep_uploads_frame)
  then show ?thesis
    by (simp add: sweep_def Let_def sweep_results_gone)
qed

lemma sweep_expired:
  assumes "map_of (RESULT_EXPIRY w) fname = Some expiry" "expiry \<le> now"
  shows "gone rm fname (sweep rm now w)"
proof -
  have "(fname, expiry) \<in> set (RESULT_EXPIRY w)"
    using assms(1) by (rule map_of_SomeD)
  then show ?thesis
    using assms(2)
    by (simp add: sweep_def Let_def sweep_uploads_frame sweep_results_expired)
qed

lemma sweep_keeps_or_gone:
  "map_of (RESULT_EXPIRY (sweep rm now w)) fname = map_of (RESULT_EXPIRY w) fname
   \<or> gone rm fname (sweep rm now w)"
  using sweep_results_keeps_or_gone
    [of rm now "RESULT_EXPIRY w" "sweep_uploads rm now (UPLOAD_EXPIRY w) w" fname]
  by (simp add: sweep_def Let_def sweep_uploads_frame)

lemma sweep_file_stays:
  assumes "\<not> rm Outputs fname" "fname \<in> output_files w"
  shows "fname \<in> output_files (sweep rm now w)"
  using assms by (simp add: sweep_def Let_def sweep_results_file_stays sweep_uploads_frame)

lemma cleaner_loop_gone: "gone rm fname w \<Longrightarrow> gone rm fname (cleaner_loop rm nows w)"
  by (induction nows arbitrary: w) (simp_all add: sweep_gone)

lemma cleaner_loop_file_stays:
  assumes "\<not> rm Outputs fname"
  shows "fname \<in> output_files w \<Longrightarrow> fname \<in> output_files (cleaner_loop rm nows w)"
  using assms by (induction nows arbitrary: w) (simp_all add: sweep_file_stays)

lemma cleaner_loop_expired:
  assumes "map_of (RESULT_EXPIRY w) fname = Some expiry" "\<exists>now\<in>set nows. expiry \<le> now"
  shows "gone rm fname (cleaner_loop rm nows w)"
  using assms
proof (induction nows arbitrary: w)
  case Nil
  then show ?case by simp
next
  case (Cons now nows)
  show ?case
  proof (cases "expiry \<le> now")
    case True
    then have "gone rm fname (sweep rm now w)"
      using Cons.prems(1) by (simp add: sweep_expired)
    then show ?thesis by (simp add: cleaner_loop_gone)
  next
    case False
    then have later: "\<exists>now\<in>set nows. expiry \<le> now" using Cons.prems by auto
    have "map_of (RESULT_EXPIRY (sweep rm now w)) fname = map_of (RESULT_EXPIRY w) fname
         \<or> gone rm fname (sweep rm now w)"
      by (rule sweep_keeps_or_gone)
    then show ?thesis
    proof
      assume "map_of (RESULT_EXPIRY (sweep rm now w)) fname = map_of (RESULT_EXPIRY w) fname"
      then show ?thesis using Cons.IH [of "sweep rm now w"] Cons.prems(1) later by simp
    next
      assume "gone rm fname (sweep rm now w)"
      then show ?thesis by (simp add: cleaner_loop_gone)
    qed
  qed
qed

lemma sweep_results_pointer:
  "filename (STATE (sweep_results rm now items w)) = filename (STATE w)
   \<or> filename (STATE (sweep_results rm now items w)) = None"
proof (induction rm now items w rule: sweep_results.induct)
  case (1 rm now w)
  then show ?case by simp
next
  case (2 rm now g e items w)
  then show ?case by (auto simp: clear_pointer_def split: if_splits)
qed

lemma sweep_pointer:
  "filename (STATE (sweep rm now w)) = filename (STATE w)
   \<or> filename (STATE (sweep rm now w)) = None"
  using sweep_results_pointer
    [of rm now "RESULT_EXPIRY w" "sweep_uploads rm now (UPLOAD_EXPIRY w) w"]
  by (simp add: sweep_def Let_def sweep_uploads_frame)

lemma cleaner_loop_pointer:
  "filename (STATE (cleaner_loop rm nows w)) = filename (STATE w)
   \<or> filename (STATE (cleaner_loop rm nows w)) = None"
proof (induction nows arbitrary: w)
  case Nil
  then show ?case by simp
next
  case (Cons now nows)
  from Cons [of "sweep rm now w"] sweep_pointer [of rm now w]
  show ?case by auto
qed

lemma cleaner_loop_swept:
  assumes "map_of (RESULT_EXPIRY w) fname = Some expiry" "\<exists>now\<in>set nows. expiry \<le> now"
  shows "swept rm fname w (cleaner_loop rm nows w)"
  using cleaner_loop_expired [OF assms, of rm] cleaner_loop_pointer [of rm nows w]
    cleaner_loop_file_stays [of rm fname w nows]
  by (auto simp: swept_def gone_def)

text \<open>The uploads.\<close>

lemma sweep_uploads_gone:
  "upload_gone rm fname w \<Longrightarrow> upload_gone rm fname (sweep_uploads rm now items w)"
proof (induction rm now items w rule: sweep_uploads.induct)
  case (1 rm now w)
  then show ?case by simp
next
  case (2 rm now g expiry items w)
  have "upload_gone rm fname (w\<lparr>upload_files := remove_file (rm Uploads g) g (upload_files w),
               UPLOAD_EXPIRY := AList.delete g (UPLOAD_EXPIRY w)\<rparr>)"
    using "2.prems" by (auto simp: upload_gone_def remove_file_def delete_conv')
  then show ?case using 2 by simp
qed

lemma sweep_uploads_expired:
  assumes "(fname, expiry) \<in> set items" "expiry \<le> now"
  shows "upload_gone rm fname (sweep_uploads rm now items w)"
  using assms
proof (induction rm now items w rule: sweep_uploads.induct)
  case (1 rm now w)
  then show ?case by simp
next
  case (2 rm now g e items w)
  show ?case
  proof (cases "g = fname \<and> e \<le> now")
    case True
    have "upload_gone rm fname (w\<lparr>upload_files := remove_file (rm Uploads g) g (upload_files w),
               UPLOAD_EXPIRY := AList.delete g (UPLOAD_EXPIRY w)\<rparr>)"
      using True by (auto simp: upload_gone_def remove_file_def delete_conv')
    then show ?thesis using True by (simp add: sweep_uploads_gone)
  next
    case False
    then have "(fname, expiry) \<in> set items" using "2.prems" by auto
    then show ?thesis using 2 by simp
  qed
qed

lemma sweep_uploads_keeps_or_gone:
  "map_of (UPLOAD_EXPIRY (sweep_uploads rm now items w)) fname = map_of (UPLOAD_EXPIRY w) fname
   \<or> upload_gone rm fname (sweep_uploads rm now items w)"
proof (induction rm now items w rule: sweep_uploads.induct)
  case (1 rm now w)
  then show ?case by simp
next
  case (2 rm now g e items w)
  show ?case
  proof (cases "g = fname \<and> e \<le> now")
    case True
    have "upload_gone rm fname (w\<lparr>upload_files := remove_file (rm Uploads g) g (upload_files w),
               UPLOAD_EXPIRY := AList.delete g (UPLOAD_EXPIRY w)\<rparr>)"
      using True by (auto simp: upload_gone_def remove_file_def delete_conv')
    then show ?thesis using True by (simp add: sweep_uploads_gone)
  next
    case False
    then show ?thesis using 2 by (auto simp: delete_conv')
  qed
qed

lemma sweep_uploads_file_stays:
  assumes "\<not> rm Uploads fname" "fname \<in> upload_files w"
  shows "fname \<in> upload_files (sweep_uploads rm now items w)"
  using assms
proof (induction rm now items w rule: sweep_uploads.induct)
  case (1 rm now w)
  then show ?case by simp
next
  case (2 rm now g e items w)
  have "fname \<in> remove_file (rm Uploads g) g (upload_files w)"
    using "2.prems" by (auto simp: remove_file_def)
  then show ?case using 2 by simp
qed

lemma sweep_upload_fields:
  "UPLOAD_EXPIRY (sweep rm now w) = UPLOAD_EXPIRY (sweep_uploads rm now (UPLOAD_EXPIRY w) w)"
  "upload_files (sweep rm now w) = upload_files (sweep_uploads rm now (UPLOAD_EXPIRY w) w)"
  by (simp_all add: sweep_def Let_def sweep_results_frame)

lemma sweep_upload_gone:
  "upload_gone rm fname w \<Longrightarrow> upload_gone rm fname (sweep rm now w)"
  using sweep_uploads_gone [of rm fname w now "UPLOAD_EXPIRY w"]
  by (simp add: upload_gone_def sweep_upload_fields)

lemma sweep_upload_expired:
  assumes "map_of (UPLOAD_EXPIRY w) fname = Some expiry" "expiry \<le> now"
  shows "upload_gone rm fname (sweep rm now w)"
proof -
  have "(fname, expiry) \<in> set (UPLOAD_EXPIRY w)"
    using assms(1) by (rule map_of_SomeD)
  then have "upload_gone rm fname (sweep_uploads rm now (UPLOAD_EXPIRY w) w)"
    using assms(2) by (rule sweep_uploads_expired)
  then show ?thesis by (simp add: upload_gone_def sweep_upload_fields)
qed

lemma sweep_upload_keeps_or_gone:
  "map_of (UPLOAD_EXPIRY (sweep rm now w)) fname = map_of (UPLOAD_EXPIRY w) fname
   \<or> upload_gone rm fname (sweep rm now w)"
  using sweep_uploads_keeps_or_gone [of rm now "UPLOAD_EXPIRY w" w fname]
  by (simp add: upload_gone_def sweep_upload_fields)

lemma sweep_upload_file_stays:
  assumes "\<not> rm Uploads fname" "fname \<in> upload_files w"
  shows "fname \<in> upload_files (sweep rm now w)"
  using assms by (simp add: sweep_upload_fields sweep_uploads_file_stays)

lemma cleaner_loop_upload_gone:
  "upload_gone rm fname w \<Longrightarrow> upload_gone rm fname (cleaner_loop rm nows w)"
  by (induction nows arbitrary: w) (simp_all add: sweep_upload_gone)

lemma cleaner_loop_upload_file_stays:
  assumes "\<not> rm Uploads fname"
  shows "fname \<in> upload_files w \<Longrightarrow> fname \<in> upload_files (cleaner_loop rm nows w)"
  using assms by (induction nows arbitrary: w) (simp_all add: sweep_upload_file_stays)

lemma cleaner_loop_upload_expired:
  assumes "map_of (UPLOAD_EXPIRY w) fname = Some expiry" "\<exists>now\<in>set nows. expiry \<le> now"
  shows "upload_gone rm fname (cleaner_loop rm nows w)"
  using assms
proof (induction nows arbitrary: w)
  case Nil
  then show ?case by simp
next
  case (Cons now nows)
  show ?case
  proof (cases "expiry \<le> now")
    case True
    then have "upload_gone rm fname (sweep rm now w)"
      using Cons.prems(1) by (simp add: sweep_upload_expired)
    then show ?thesis by (simp add: cleaner_loop_upload_gone)
  next
    case False
    then have later: "\<exists>now\<in>set nows. expiry \<le> now" using Cons.prems by auto
    have "map_of (UPLOAD_EXPIRY (sweep rm now w)) fname = map_of (UPLOAD_EXPIRY w) fname
         \<or> upload_gone rm fname (sweep rm now w)"
      by (rule sweep_upload_keeps_or_gone)
    then show ?thesis
    proof
      assume "map_of (UPLOAD_EXPIRY (sweep rm now w)) fname = map_of (UPLOAD_EXPIRY w) fname"
      then show ?thesis using Cons.IH [of "sweep rm now w"] Cons.prems(1) later by simp
    next
      assume "upload_gone rm fname (sweep rm now w)"
      then show ?thesis by (simp add: cleaner_loop_upload_gone)
    qed
  qed
qed

lemma cleaner_loop_upload_swept:
  assumes "map_of (UPLOAD_EXPIRY w) fname = Some expiry" "\<exists>now\<in>set nows. expiry \<le> now"
  shows "upload_swept rm fname w (cleaner_loop rm nows w)"
  using cleaner_loop_upload_expired [OF assms, of rm]
    cleaner_loop_upload_file_stays [of rm fname w nows]
  by (auto simp: upload_swept_def)

lemma registered:
  "map_of (RESULT_EXPIRY (set_result_expiry fname ttl r wo w)) fname = Some (r + ttl)"
  "map_of (UPLOAD_EXPIRY (set_upload_expiry fname ttl r wo w)) fname = Some (r + ttl)"
  by (cases wo; simp add: set_result_expiry_def set_upload_expiry_def save_expiries_def
      update_conv')+

lemma periodic_reaches:
  assumes "t0 \<le> c" "c < t0 + SWEEP_INTERVAL * real n" "e + SWEEP_INTERVAL \<le> c"
  shows "\<exists>now\<in>set (periodic_readings t0 n). e \<le> now"
proof -
  have n: "0 < n" using assms(1,2) by (cases n) (simp_all add: SWEEP_INTERVAL_def)
  then obtain m where m: "n = Suc m" by (cases n) auto
  have "e \<le> t0 + SWEEP_INTERVAL * real m"
    using assms(2,3) by (simp add: m SWEEP_INTERVAL_def algebra_simps)
  moreover have "t0 + SWEEP_INTERVAL * real m \<in> set (periodic_readings t0 n)"
    by (simp add: periodic_readings_def m)
  ultimately show ?thesis by blast
qed

lemma last_reaches:
  fixes c g e :: real
  assumes "nows \<noteq> []" "c < last nows + g" "e + g \<le> c"
  shows "\<exists>now\<in>set nows. e \<le> now"
proof -
  have "e \<le> last nows" using assms(2,3) by simp
  moreover have "last nows \<in> set nows" using assms(1) by (rule last_in_set)
  ultimately show ?thesis by blast
qed

lemma cleaner_loop_swept_in:
  assumes "map_of (ledger_of d w) fname = Some expiry" "\<exists>now\<in>set nows. expiry \<le> now"
  shows "swept_in d rm fname w (cleaner_loop rm nows w)"
proof (cases d)
  case Uploads
  then have "upload_swept rm fname w (cleaner_loop rm nows w)"
    using assms by (intro cleaner_loop_upload_swept) (simp_all add: ledger_of_def)
  then show ?thesis
    using Uploads by (auto simp: swept_in_def upload_swept_def upload_gone_def ledger_of_def files_of_def)
next
  case Outputs
  then have "swept rm fname w (cleaner_loop rm nows w)"
    using assms by (intro cleaner_loop_swept) (simp_all add: ledger_of_def)
  then show ?thesis
    using Outputs by (auto simp: swept_in_def swept_def gone_def ledger_of_def files_of_def)
qed

text \<open>
  Claim C9, as amended. An artifact (a report, or an uploaded roster) registered at clock
  reading \<open>r\<close> with time to live \<open>ttl\<close> has the ledger entry \<open>r + ttl\<close>. After any
  iterations of the cleaner one of which reads the clock at or after \<open>r + ttl\<close>, whatever
  the operating system answers to the removal: the ledger entry is gone, and for a report
  the pointer of the job state does not name it and is empty if it named it before. The
  file is gone if the operating system lets it be removed. If the removal is refused the
  refusal is swallowed and, the entry being gone, never tried again: the file stays in
  the folder. Such an iteration has run (1) when one sweep reads the clock at or after
  \<open>r + ttl\<close>; (2) at a check at time \<open>c \<ge> r + ttl + g\<close>, when the last iteration read the
  clock less than \<open>g\<close> before the check, \<open>g\<close> being the pause of 60 seconds and the time the
  sweep itself takes; (3) in particular for iterations exactly 60 seconds apart and
  \<open>c \<ge> r + ttl + 60\<close>.
\<close>

theorem artifact_eviction_best_effort:
  assumes reg: "w1 = set_expiry d fname ttl r wo w0"
  shows "map_of (ledger_of d w1) fname = Some (r + ttl)
    \<and> ((\<exists>t\<in>set nows. r + ttl \<le> t) \<longrightarrow>
         swept_in d removable fname w1 (cleaner_loop removable nows w1))
    \<and> (r + ttl \<le> now \<longrightarrow> swept_in d removable fname w1 (sweep removable now w1))
    \<and> (nows \<noteq> [] \<and> c < last nows + g \<and> r + ttl + g \<le> c \<longrightarrow>
         swept_in d removable fname w1 (cleaner_loop removable nows w1))
    \<and> (t0 \<le> c \<and> c < t0 + SWEEP_INTERVAL * real n \<and> r + ttl + SWEEP_INTERVAL \<le> c \<longrightarrow>
         swept_in d removable fname w1 (cleaner_loop removable (periodic_readings t0 n) w1))"
proof -
  have e: "map_of (ledger_of d w1) fname = Some (r + ttl)"
    by (cases d) (simp_all add: reg set_expiry_def ledger_of_def registered)
  have many: "swept_in d removable fname w1 (cleaner_loop removable ts w1)"
    if "\<exists>t\<in>set ts. r + ttl \<le> t" for ts
    using e that by (rule cleaner_loop_swept_in)
  have one: "swept_in d removable fname w1 (sweep removable now w1)" if "r + ttl \<le> now"
    using many [of "[now]"] that by simp
  have gap: "swept_in d removable fname w1 (cleaner_loop removable nows w1)"
    if "nows \<noteq> []" "c < last nows + g" "r + ttl + g \<le> c"
    using many [OF last_reaches [OF that]] .
  have periodic: "swept_in d removable fname w1 (cleaner_loop removable (periodic_readings t0 n) w1)"
    if "t0 \<le> c" "c < t0 + SWEEP_INTERVAL * real n" "r + ttl + SWEEP_INTERVAL \<le> c"
    using many [OF periodic_reaches [OF that]] .
  show ?thesis using e one many gap periodic by blast
qed

theorem artifact_eviction_best_effort_witness:
  "map_of (ledger_of Outputs report_registered) ''Class Semester result.xlsx'' = Some 1200
   \<and> ''Class Semester result.xlsx'' \<in> files_of Outputs report_registered
   \<and> filename (STATE report_registered) = Some ''Class Semester result.xlsx''
   \<and> swept_in Outputs always_removable ''Class Semester result.xlsx'' report_registered
        (sweep always_removable 1260 report_registered)
   \<and> swept_in Outputs always_removable ''Class Semester result.xlsx'' report_registered
        (cleaner_loop always_removable [1140, 1200] report_registered)
   \<and> swept_in Outputs always_removable ''Class Semester result.xlsx'' report_registered
        (cleaner_loop always_removable (periodic_readings 30 22) report_registered)
   \<and> ''Class Semester result.xlsx''
        \<notin> files_of Outputs (sweep always_removable 1260 report_registered)
   \<and> map_of (ledger_of Uploads roster_registered) ''roster.xlsx'' = Some 600
   \<and> swept_in Uploads never_removable ''roster.xlsx'' roster_registered
        (cleaner_loop never_removable [590, 655] roster_registered)
   \<and> ''roster.xlsx'' \<in> files_of Uploads (cleaner_loop never_removable [590, 655] roster_registered)"
proof -
  have r: "report_registered =
      set_expiry Outputs ''Class Semester result.xlsx'' (20 * 60) 0 Written
        (world_initial\<lparr>output_files := {''Class Semester result.xlsx''},
            STATE := STATE_initial\<lparr>filename := Some ''Class Semester result.xlsx''\<rparr>\<rparr>)"
    by (simp add: report_registered_def set_expiry_def)
  have u: "roster_registered =
      set_expiry Uploads ''roster.xlsx'' (10 * 60) 0 Written
        (world_initial\<lparr>upload_files := {''roster.xlsx''}\<rparr>)"
    by (simp add: roster_registered_def set_expiry_def)
  have fr: "''Class Semester result.xlsx'' \<in> files_of Outputs report_registered"
    "filename (STATE report_registered) = Some ''Class Semester result.xlsx''"
    by (simp_all add: report_registered_def set_result_expiry_def save_expiries_def
        files_of_def)
  have fu: "''roster.xlsx'' \<in> files_of Uploads roster_registered"
    by (simp add: roster_registered_def set_upload_expiry_def save_expiries_def
        world_initial_def files_of_def)
  note a = artifact_eviction_best_effort
    [OF r, of "[1140, 1200]" always_removable 1260 1300 60 30 22]
  note b = artifact_eviction_best_effort
    [OF u, of "[590, 655]" never_removable 655 700 60 30 22]
  show ?thesis
    using a b fr fu
    by (simp add: SWEEP_INTERVAL_def swept_in_def always_removable_def never_removable_def)
qed

text \<open>
  Claim C9 as stated fails: with the report on disk and an operating system that refuses
  the removal, the sweep at second 1260, after the expiry at second 1200, deletes the
  ledger entry and leaves the file; the sweeps at seconds 1320 and 1380 do not try again,
  and the file is there at every later check.
\<close>

theorem refused_removal_counterexample:
  "map_of (RESULT_EXPIRY report_registered) ''Class Semester result.xlsx'' = Some 1200
   \<and> ''Class Semester result.xlsx'' \<in> output_files report_registered
   \<and> RESULT_EXPIRY (sweep never_removable 1260 report_registered) = []
   \<and> ''Class Semester result.xlsx''
        \<in> output_files (sweep never_removable 1260 report_registered)
   \<and> ''Class Semester result.xlsx''
        \<in> output_files (cleaner_loop never_removable [1260, 1320, 1380] report_registered)
   \<and> \<not> evicted ''Class Semester result.xlsx''
          (cleaner_loop never_removable [1260, 1320, 1380] report_registered)"
  by (simp add: report_registered_def set_result_expiry_def save_expiries_def
      world_initial_def sweep_def Let_def remove_file_def never_removable_def
      clear_pointer_def STATE_initial_def evicted_def)







section \<open>Properties of reading the roster\<close>

lemma py_int_cases:
  "convertible c \<Longrightarrow> py_int c = Inr (int_value c)"
  "\<not> convertible c \<Longrightarrow> py_int c = Inl Value_error"
proof -
  have e: "py_int c = Inl e \<Longrightarrow> e = Value_error" for e
    by (cases c) (simp_all add: py_int_def int_of_str_def Let_def split: if_splits)
  show "convertible c \<Longrightarrow> py_int c = Inr (int_value c)"
    by (cases "py_int c") (simp_all add: convertible_def int_value_def)
  show "\<not> convertible c \<Longrightarrow> py_int c = Inl Value_error"
    using e by (cases "py_int c") (simp_all add: convertible_def)
qed

text \<open>
  Claim C6, as amended. Rows with a missing cell are skipped without an error. If every
  row without a missing cell has a roll number and a registration number that \<^verbatim>\<open>int\<close>
  converts, loading returns the records of exactly the rows without a missing cell, in
  order. Otherwise loading raises \<^verbatim>\<open>ValueError\<close> and returns no record at all.
\<close>

theorem load_students_present_rows:
  "load_students float_str rows =
     (if \<forall>row\<in>set rows. present row \<longrightarrow>
           convertible (Roll_Number row) \<and> convertible (Registration_Number row)
      then Inr (map (record_of float_str) (filter present rows))
      else Inl Value_error)"
proof (induction rows)
  case Nil
  then show ?case by simp
next
  case (Cons row rows)
  show ?case
  proof (cases "present row")
    case False
    then have s: "load_students float_str (row # rows) = load_students float_str rows"
      by (auto simp: present_def isna_def)
    show ?thesis unfolding s Cons using False by simp
  next
    case True
    then have skip: "\<not> (isna (Roll_Number row) \<or> isna (Registration_Number row)
        \<or> isna (Student_Name row))"
      by (simp add: present_def isna_def)
    show ?thesis
    proof (cases "convertible (Roll_Number row)")
      case False
      then have s: "load_students float_str (row # rows) = Inl Value_error"
        using skip by (simp add: py_int_cases)
      show ?thesis unfolding s using False True by auto
    next
      case a: True
      show ?thesis
      proof (cases "convertible (Registration_Number row)")
        case False
        then have s: "load_students float_str (row # rows) = Inl Value_error"
          using skip a by (simp add: py_int_cases)
        show ?thesis unfolding s using False True by auto
      next
        case b: True
        have s: "load_students float_str (row # rows) =
          (case load_students float_str rows of
             Inl e \<Rightarrow> Inl e
           | Inr studs \<Rightarrow> Inr (record_of float_str row # studs))"
          using skip a b by (simp add: py_int_cases record_of_def split: sum.splits)
        show ?thesis unfolding s Cons using a b True by simp
      qed
    qed
  qed
qed

theorem load_students_present_rows_witness:
  "filter present roster_with_gap = [roster_with_gap ! 0, roster_with_gap ! 2]
   \<and> convertible (Roll_Number (roster_with_gap ! 0))
   \<and> convertible (Registration_Number (roster_with_gap ! 0))
   \<and> convertible (Roll_Number (roster_with_gap ! 2))
   \<and> convertible (Registration_Number (roster_with_gap ! 2))
   \<and> load_students (\<lambda>x. []) roster_with_gap =
       Inr [\<lparr>name = ''Alice'', roll = ''101'', reg = ''5001''\<rparr>,
            \<lparr>name = ''Bob'', roll = ''102'', reg = ''5002''\<rparr>]"
  using load_students_present_rows [of "\<lambda>x. []" roster_with_gap]
  by (simp add: roster_with_gap_def present_def convertible_def record_of_def int_value_def
      py_int_def int_of_str_def strip_def is_space_def is_digit_def nat_of_digits_def
      digit_value_def py_str_def str_of_int_def str_of_nat.simps digit_char_def Let_def)

text \<open>
  Claim C6 as stated fails: a row whose roll number is the text \<open>abc\<close> is not dropped;
  \<^verbatim>\<open>int('abc')\<close> raises and loading returns no record, although the second row is sound.
\<close>

theorem load_students_unparseable_counterexample:
  "present (hd roster_with_text) \<and> \<not> convertible (Roll_Number (hd roster_with_text))
   \<and> load_students (\<lambda>x. []) roster_with_text = Inl Value_error"
  by (simp add: roster_with_text_def present_def convertible_def isna_def py_int_def
      int_of_str_def strip_def is_space_def is_digit_def Let_def)

section \<open>Properties of the extraction engine\<close>

subsection \<open>Patterns between word boundaries pick whole words\<close>

lemma first_count_uniform:
  assumes "\<forall>k. lo \<le> k \<and> k \<le> u \<longrightarrow> f k = (if Q k then Some r else None)"
  shows "first_count f lo u = (if \<exists>k. lo \<le> k \<and> k \<le> u \<and> Q k then Some r else None)"
  using assms
proof (induction u)
  case 0
  then show ?case by auto
next
  case (Suc u)
  show ?case
  proof (cases "Suc u < lo")
    case True
    then show ?thesis by auto
  next
    case False
    then have here: "f (Suc u) = (if Q (Suc u) then Some r else None)"
      using Suc.prems by simp
    show ?thesis
    proof (cases "Q (Suc u)")
      case True
      then show ?thesis using False here by auto
    next
      case nq: False
      have "first_count f lo u = (if \<exists>k. lo \<le> k \<and> k \<le> u \<and> Q k then Some r else None)"
        by (rule Suc.IH) (use Suc.prems in auto)
      moreover have "(\<exists>k. lo \<le> k \<and> k \<le> Suc u \<and> Q k) \<longleftrightarrow> (\<exists>k. lo \<le> k \<and> k \<le> u \<and> Q k)"
        using nq by (auto simp: le_Suc_eq)
      ultimately show ?thesis using False here nq by simp
    qed
  qed
qed

lemma le_length_takeWhile:
  "k \<le> length (takeWhile p w) \<longleftrightarrow> k \<le> length w \<and> list_all p (take k w)"
proof (induction w arbitrary: k)
  case Nil
  then show ?case by simp
next
  case (Cons c w)
  then show ?case by (cases k) auto
qed

lemma takeWhile_before_gap:
  assumes "rest = [] \<or> \<not> p (hd rest)"
  shows "takeWhile p (w @ rest) = takeWhile p w"
proof (induction w)
  case Nil
  then show ?case using assms by (cases rest) auto
next
  case (Cons c w)
  then show ?case by simp
qed

lemma most_le: "k \<le> most hi n \<longleftrightarrow> k \<le> n \<and> k \<le> most hi k"
  by (auto simp: most_def split: option.splits)

lemma word_at_next:
  assumes "list_all is_word w" "rest = [] \<or> \<not> is_word (hd rest)"
  shows "word_at (next_char (w @ rest)) \<longleftrightarrow> w \<noteq> []"
  using assms by (cases w; cases rest) (auto simp: word_at_def next_char_def)

lemma match_word_tail:
  assumes "\<forall>a\<in>set body. word_atom a" and "list_all is_word w"
    and "rest = [] \<or> \<not> is_word (hd rest)" and "word_at prev \<or> starts_nonempty body"
  shows "match_here (body @ [Bdry]) prev (w @ rest) =
           (if fits body w then Some (length w) else None)"
  using assms
proof (induction body arbitrary: prev w)
  case Nil
  then have "word_at prev" by simp
  then show ?case using word_at_next [OF Nil.prems(2,3)] by auto
next
  case (Cons a body)
  obtain p lo hi where a: "a = Rep p lo hi" and pw: "\<forall>c. p c \<longrightarrow> is_word c"
    using Cons.prems(1) by (cases a) auto
  let ?n = "length (takeWhile p w)"
  have tw: "takeWhile p (w @ rest) = takeWhile p w"
    using Cons.prems(3) pw by (intro takeWhile_before_gap) auto
  let ?f = "\<lambda>k. map_option (\<lambda>m. k + m)
      (match_here (body @ [Bdry]) (prev_char prev (w @ rest) k) (drop k (w @ rest)))"
  have f: "?f k = (if fits body (drop k w) then Some (length w) else None)"
    if k: "lo \<le> k" "k \<le> most hi ?n" for k
  proof -
    have "k \<le> ?n" using k(2) most_le by blast
    then have kw: "k \<le> length w" by (simp add: le_length_takeWhile)
    have w': "list_all is_word (drop k w)"
      using Cons.prems(2) by (auto simp: list_all_iff dest: in_set_dropD)
    have "word_at (prev_char prev (w @ rest) k) \<or> starts_nonempty body"
    proof (cases "k = 0")
      case True
      then have "\<not> starts_nonempty (a # body)" using k(1) a by simp
      then show ?thesis using Cons.prems(4) True by (simp add: prev_char_def)
    next
      case False
      then have "k - 1 < length w" using kw by simp
      then have "(w @ rest) ! (k - 1) \<in> set w" by (simp add: nth_append)
      then show ?thesis
        using False Cons.prems(2) by (simp add: prev_char_def word_at_def list_all_iff)
    qed
    then have "match_here (body @ [Bdry]) (prev_char prev (w @ rest) k) (drop k w @ rest) =
        (if fits body (drop k w) then Some (length (drop k w)) else None)"
      using Cons.prems(1,3) w' by (intro Cons.IH) auto
    then show ?thesis using kw by auto
  qed
  have "first_count ?f lo (most hi ?n) =
      (if \<exists>k. lo \<le> k \<and> k \<le> most hi ?n \<and> fits body (drop k w) then Some (length w) else None)"
    by (rule first_count_uniform) (use f in blast)
  moreover have "(\<exists>k. lo \<le> k \<and> k \<le> most hi ?n \<and> fits body (drop k w)) \<longleftrightarrow> fits (a # body) w"
    unfolding a fits.simps using most_le [of _ hi ?n] le_length_takeWhile [of _ p w] by blast
  ultimately show ?case by (simp add: a tw)
qed

lemma fits_nonempty: "starts_nonempty body \<Longrightarrow> \<not> fits body []"
  by (cases body rule: starts_nonempty.cases) auto

lemma match_word:
  assumes "\<forall>a\<in>set body. word_atom a" and "starts_nonempty body"
  shows "match_here (Bdry # body @ [Bdry]) prev s =
           (if \<not> word_at prev \<and> fits body (takeWhile is_word s)
            then Some (length (takeWhile is_word s)) else None)"
proof -
  let ?w = "takeWhile is_word s" and ?rest = "dropWhile is_word s"
  have s: "s = ?w @ ?rest" by simp
  have w: "list_all is_word ?w" by (auto simp: list_all_iff dest: set_takeWhileD)
  have rest: "?rest = [] \<or> \<not> is_word (hd ?rest)" using hd_dropWhile by blast
  have "match_here (body @ [Bdry]) prev (?w @ ?rest) =
      (if fits body ?w then Some (length ?w) else None)"
    using assms w rest by (intro match_word_tail) auto
  moreover have "word_at (next_char (?w @ ?rest)) \<longleftrightarrow> ?w \<noteq> []"
    using w rest by (rule word_at_next)
  ultimately show ?thesis using fits_nonempty [OF assms(2)] by auto
qed

lemma search_words:
  assumes "\<forall>a\<in>set body. word_atom a" and "starts_nonempty body"
  shows "search_from (Bdry # body @ [Bdry]) prev s =
           find (fits body) (words (if word_at prev then dropWhile is_word s else s))"
proof (induction s arbitrary: prev)
  case Nil
  then show ?case
    using fits_nonempty [OF assms(2)]
    by (simp add: match_word [OF assms] del: match_here.simps)
next
  case (Cons c cs)
  let ?pat = "Bdry # body @ [Bdry]" and ?w = "takeWhile is_word (c # cs)"
  have tail: "search_from ?pat (Some c) cs =
      find (fits body) (words (dropWhile is_word (c # cs)))"
    unfolding Cons by (simp add: word_at_def)
  show ?case
  proof (cases "\<not> word_at prev \<and> fits body ?w")
    case False
    then have "match_here ?pat prev (c # cs) = None"
      by (simp add: match_word [OF assms] del: match_here.simps)
    then have "search_from ?pat prev (c # cs) = search_from ?pat (Some c) cs"
      by (simp del: match_here.simps)
    also have "\<dots> = find (fits body) (words (dropWhile is_word (c # cs)))"
      by (rule tail)
    also have "\<dots> = find (fits body)
        (words (if word_at prev then dropWhile is_word (c # cs) else c # cs))"
      using False by (auto split: if_splits)
    finally show ?thesis .
  next
    case True
    then have c: "is_word c"
      using fits_nonempty [OF assms(2)] by (auto split: if_splits)
    have "match_here ?pat prev (c # cs) = Some (length ?w)"
      using True by (simp add: match_word [OF assms] del: match_here.simps)
    moreover have "take (length ?w) (c # cs) = ?w"
      by (simp only: takeWhile_eq_take [symmetric])
    ultimately have "search_from ?pat prev (c # cs) = Some ?w"
      by (simp del: match_here.simps takeWhile.simps)
    moreover have "words (c # cs) = ?w # words (dropWhile is_word cs)" using c by simp
    ultimately show ?thesis using True by (simp del: match_here.simps takeWhile.simps)
  qed
qed

lemma findall_words:
  assumes "\<forall>a\<in>set body. word_atom a" and "starts_nonempty body"
  shows "findall_from (Bdry # body @ [Bdry]) prev s =
           filter (fits body) (words (if word_at prev then dropWhile is_word s else s))"
proof (induction s arbitrary: prev rule: length_induct)
  case (1 s)
  let ?pat = "Bdry # body @ [Bdry]"
  show ?case
  proof (cases s)
    case Nil
    then show ?thesis
      using fits_nonempty [OF assms(2)]
      by (simp add: match_word [OF assms] del: match_here.simps)
  next
    case (Cons c cs)
    let ?w = "takeWhile is_word (c # cs)"
    have tail: "findall_from ?pat (Some c) cs =
        filter (fits body) (words (dropWhile is_word (c # cs)))"
      using 1 Cons by (simp add: word_at_def)
    show ?thesis
    proof (cases "\<not> word_at prev \<and> fits body ?w")
      case False
      then have "match_here ?pat prev (c # cs) = None"
        by (simp add: match_word [OF assms] del: match_here.simps)
      then have "findall_from ?pat prev (c # cs) = findall_from ?pat (Some c) cs"
        by (simp del: match_here.simps)
      also have "\<dots> = filter (fits body) (words (dropWhile is_word (c # cs)))"
        by (rule tail)
      also have "\<dots> = filter (fits body)
          (words (if word_at prev then dropWhile is_word (c # cs) else c # cs))"
        using False by (auto split: if_splits)
      finally show ?thesis unfolding Cons .
    next
      case True
      then have c: "is_word c"
        using fits_nonempty [OF assms(2)] by (auto split: if_splits)
      then have w: "?w \<noteq> []" by simp
      have len: "max (length ?w) 1 = length ?w" using c by (simp add: max_def)
      have mh: "match_here ?pat prev (c # cs) = Some (length ?w)"
        using True by (simp add: match_word [OF assms] del: match_here.simps)
      have tk: "take (length ?w) (c # cs) = ?w"
        by (simp only: takeWhile_eq_take [symmetric])
      have dr: "drop (length ?w) (c # cs) = dropWhile is_word cs"
        using c by (simp only: dropWhile_eq_drop [symmetric]) simp
      have "(c # cs) ! (length ?w - 1) = ?w ! (length ?w - 1)"
        using w by (intro takeWhile_nth [symmetric]) simp
      moreover have "?w ! (length ?w - 1) \<in> set ?w" using w by (intro nth_mem) simp
      then have "is_word (?w ! (length ?w - 1))" by (rule set_takeWhileD [THEN conjunct2])
      ultimately have pw: "is_word ((c # cs) ! (length ?w - 1))"
        by (simp only:)
      have "length (dropWhile is_word cs) < length s"
        using Cons length_dropWhile_le [of is_word cs] by simp
      then have rec: "findall_from ?pat (Some ((c # cs) ! (length ?w - 1))) (dropWhile is_word cs) =
          filter (fits body) (words (dropWhile is_word cs))"
        using 1 pw by (simp add: word_at_def dropWhile_idem)
      have "findall_from ?pat prev (c # cs) =
          ?w # findall_from ?pat (Some ((c # cs) ! (length ?w - 1))) (dropWhile is_word cs)"
        by (simp only: findall_from.simps mh option.case len tk dr)
      also have "\<dots> = ?w # filter (fits body) (words (dropWhile is_word cs))"
        by (simp only: rec)
      also have "\<dots> = filter (fits body) (words (c # cs))"
        using True c by simp
      finally show ?thesis unfolding Cons using True by simp
    qed
  qed
qed

subsection \<open>The patterns of the marks\<close>

lemma upper_char_other: "\<not> is_lower x \<Longrightarrow> upper_char x = x"
  by (simp add: upper_char_def is_lower_def)

lemma upper_char_word:
  assumes "upper_char x = c" and "is_upper c"
  shows "is_word x"
proof (cases "is_lower x")
  case True
  then show ?thesis by (simp add: is_word_def)
next
  case False
  then show ?thesis using assms upper_char_other [of x] by (simp add: is_word_def)
qed

lemma upper_digits: "digits s \<Longrightarrow> upper s = s"
proof -
  have "upper_char c = c" if "is_digit c" for c
    using that by (intro upper_char_other) (auto simp: is_digit_def is_lower_def)
  then show "digits s \<Longrightarrow> upper s = s"
    by (simp add: digits_def upper_def list_all_iff map_idI)
qed

lemma word_atom_literal:
  assumes "\<forall>c\<in>set lit. is_upper c"
  shows "\<forall>a\<in>set (literal_ci lit). word_atom a"
  using assms upper_char_word by (auto simp: literal_ci_def)

lemma word_atom_digit: "word_atom (Rep is_digit lo hi)"
  by (simp add: is_word_def)

lemma fits_one:
  "fits (Rep p 1 (Some 1) # as) w \<longleftrightarrow> (\<exists>x w'. w = x # w' \<and> p x \<and> fits as w')"
proof
  assume "fits (Rep p 1 (Some 1) # as) w"
  then obtain k where k: "k \<le> length w" "1 \<le> k" "k \<le> most (Some 1) k"
      "list_all p (take k w)" "fits as (drop k w)"
    by auto
  then have "k = 1" by (simp add: most_def)
  then show "\<exists>x w'. w = x # w' \<and> p x \<and> fits as w'" using k by (cases w) auto
next
  assume "\<exists>x w'. w = x # w' \<and> p x \<and> fits as w'"
  then obtain x w' where "w = x # w'" "p x" "fits as w'" by blast
  then have "1 \<le> length w \<and> (1::nat) \<le> 1 \<and> 1 \<le> most (Some 1) 1
      \<and> list_all p (take 1 w) \<and> fits as (drop 1 w)"
    by (simp add: most_def)
  then show "fits (Rep p 1 (Some 1) # as) w" unfolding fits.simps by blast
qed

lemma fits_literal: "fits (literal_ci lit) w \<longleftrightarrow> upper w = lit"
proof (induction lit arbitrary: w)
  case Nil
  then show ?case by (simp add: literal_ci_def upper_def)
next
  case (Cons c lit)
  have "fits (literal_ci (c # lit)) w \<longleftrightarrow>
      (\<exists>x w'. w = x # w' \<and> upper_char x = c \<and> fits (literal_ci lit) w')"
    unfolding literal_ci_def list.map by (rule fits_one)
  then show ?case using Cons by (auto simp: upper_def)
qed

lemma fits_number: "fits [Rep is_digit 2 (Some 3)] w \<longleftrightarrow> number_word w"
proof
  assume "fits [Rep is_digit 2 (Some 3)] w"
  then obtain k where k: "k \<le> length w" "2 \<le> k" "k \<le> most (Some 3) k"
      "list_all is_digit (take k w)" "drop k w = []"
    by auto
  then have "k = length w" by simp
  then show "number_word w" using k by (simp add: number_word_def digits_def most_def)
next
  assume "number_word w"
  then have "length w \<le> length w \<and> 2 \<le> length w \<and> length w \<le> most (Some 3) (length w)
      \<and> list_all is_digit (take (length w) w) \<and> fits [] (drop (length w) w)"
    by (simp add: number_word_def digits_def most_def)
  then show "fits [Rep is_digit 2 (Some 3)] w" unfolding fits.simps by blast
qed

lemma fits_number_f:
  "fits (Rep is_digit 1 (Some 3) # literal_ci ''F'') w \<longleftrightarrow> numeric_fail_word w"
proof
  assume "fits (Rep is_digit 1 (Some 3) # literal_ci ''F'') w"
  then obtain k where k: "k \<le> length w" "1 \<le> k" "k \<le> most (Some 3) k"
      "list_all is_digit (take k w)" "upper (drop k w) = ''F''"
    by (auto simp: fits_literal)
  from k(5) obtain z where z: "drop k w = [z]" "upper_char z = CHR ''F''"
    by (auto simp: upper_def)
  from z(1) have "length (drop k w) = length [z]" by (rule arg_cong)
  then have lw: "length w = k + 1" using k(1) by simp
  then have bl: "butlast w = take k w" by (simp add: butlast_conv_take)
  have "last (drop k w) = last w" using lw by (intro last_drop) simp
  then have "upper_char (last w) = CHR ''F''" using z by simp
  then show "numeric_fail_word w"
    using k lw bl by (auto simp: numeric_fail_word_def digits_def most_def)
next
  assume nf: "numeric_fail_word w"
  let ?k = "length w - 1"
  have w: "w \<noteq> []" using nf by (simp add: numeric_fail_word_def)
  then have "drop ?k w = [last w]"
    by (metis append_butlast_last_id append_eq_conv_conj length_butlast)
  then have "upper (drop ?k w) = ''F''" using nf by (simp add: numeric_fail_word_def upper_def)
  then have "?k \<le> length w \<and> 1 \<le> ?k \<and> ?k \<le> most (Some 3) ?k
      \<and> list_all is_digit (take ?k w) \<and> fits (literal_ci ''F'') (drop ?k w)"
    using nf by (simp add: numeric_fail_word_def digits_def most_def butlast_conv_take fits_literal)
  then show "fits (Rep is_digit 1 (Some 3) # literal_ci ''F'') w" unfolding fits.simps by blast
qed

lemma is_upper_literals:
  "\<forall>c\<in>set ''F''. is_upper c" "\<forall>c\<in>set ''FAIL''. is_upper c"
  "\<forall>c\<in>set ''AB''. is_upper c" "\<forall>c\<in>set ''ABSENT''. is_upper c"
  by (simp_all add: is_upper_def)

lemma starts_nonempty_literal: "lit \<noteq> [] \<Longrightarrow> starts_nonempty (literal_ci lit)"
  by (cases lit) (simp_all add: literal_ci_def)

lemma search_literal:
  assumes "\<forall>c\<in>set lit. is_upper c" and "lit \<noteq> []"
  shows "search (Bdry # literal_ci lit @ [Bdry]) s = find (\<lambda>w. upper w = lit) (words s)"
proof -
  have "search (Bdry # literal_ci lit @ [Bdry]) s = find (fits (literal_ci lit)) (words s)"
    unfolding search_def
    using search_words [OF word_atom_literal [OF assms(1)] starts_nonempty_literal [OF assms(2)], of None s]
    by (simp add: word_at_def del: match_here.simps)
  moreover have "fits (literal_ci lit) = (\<lambda>w. upper w = lit)"
    by (rule ext) (rule fits_literal)
  ultimately show ?thesis by simp
qed

lemma search_number_f: "search number_f_pattern s = find numeric_fail_word (words s)"
proof -
  let ?body = "Rep is_digit 1 (Some 3) # literal_ci ''F''"
  have "\<forall>a\<in>set ?body. word_atom a"
    using word_atom_literal [OF is_upper_literals(1)] word_atom_digit by simp
  moreover have "starts_nonempty ?body" by simp
  ultimately have "search_from (Bdry # ?body @ [Bdry]) None s = find (fits ?body) (words s)"
    using search_words [of ?body None s] by (simp add: word_at_def del: match_here.simps fits.simps)
  moreover have "fits ?body = numeric_fail_word"
    by (rule ext) (rule fits_number_f)
  ultimately show ?thesis by (simp add: search_def number_f_pattern_def)
qed

lemma search_literal_found:
  assumes "\<forall>c\<in>set lit. is_upper c" and "lit \<noteq> []"
  shows "search (Bdry # literal_ci lit @ [Bdry]) s \<noteq> None \<longleftrightarrow>
           list_ex (\<lambda>w. upper w = lit) (words s)"
proof -
  have "search (Bdry # literal_ci lit @ [Bdry]) s = None \<longleftrightarrow>
      \<not> (\<exists>w. w \<in> set (words s) \<and> upper w = lit)"
    unfolding search_literal [OF assms] by (rule find_None_iff)
  then show ?thesis by (auto simp: list_ex_iff)
qed

lemma search_f: "search f_pattern s \<noteq> None \<longleftrightarrow> list_ex f_word (words s)"
proof -
  have "f_word = (\<lambda>w. upper w = ''F'')" by (rule ext) (simp add: f_word_def)
  then show ?thesis
    unfolding f_pattern_def using search_literal_found [OF is_upper_literals(1), of s] by simp
qed

lemma search_fail:
  "list_ex (\<lambda>p. search p s \<noteq> None) fail_patterns \<longleftrightarrow> list_ex fail_word (words s)"
proof -
  have "list_ex (\<lambda>p. search p s \<noteq> None) fail_patterns \<longleftrightarrow>
      list_ex (\<lambda>w. upper w = ''FAIL'') (words s) \<or> list_ex (\<lambda>w. upper w = ''AB'') (words s)
      \<or> list_ex (\<lambda>w. upper w = ''ABSENT'') (words s)"
    using search_literal_found [OF is_upper_literals(2), of s]
      search_literal_found [OF is_upper_literals(3), of s]
      search_literal_found [OF is_upper_literals(4), of s]
    by (simp add: fail_patterns_def)
  then show ?thesis by (auto simp: list_ex_iff fail_word_def)
qed

lemma findall_number: "findall number_pattern s = filter number_word (words s)"
proof -
  have "findall_from (Bdry # [Rep is_digit 2 (Some 3)] @ [Bdry]) None s =
      filter (fits [Rep is_digit 2 (Some 3)]) (words s)"
    using findall_words [of "[Rep is_digit 2 (Some 3)]" None s] word_atom_digit
    by (simp add: word_at_def del: match_here.simps fits.simps)
  moreover have "fits [Rep is_digit 2 (Some 3)] = number_word"
    by (rule ext) (rule fits_number)
  ultimately show ?thesis by (simp add: findall_def number_pattern_def)
qed

text \<open>The token of a row, in terms of the words of its text.\<close>

lemma mark_token_words:
  "mark_token s =
     (case find numeric_fail_word (words s) of
        Some t \<Rightarrow> Some (upper t)
      | None \<Rightarrow>
          if list_ex f_word (words s) then Some ''F''
          else if filter plausible (filter number_word (words s)) \<noteq> []
               then Some (last (filter plausible (filter number_word (words s))))
               else if list_ex fail_word (words s) then Some ''F'' else None)"
proof -
  have p: "(\<lambda>n. 10 \<le> nat_of_digits n \<and> nat_of_digits n \<le> 100) = plausible"
    by (rule ext) (simp add: plausible_def)
  show ?thesis
    unfolding mark_token_def search_number_f findall_number search_f search_fail p Let_def
    by (rule refl)
qed

subsection \<open>The claims about the tokens of a row\<close>

lemma upper_numeric_fail:
  assumes "numeric_fail_word t"
  shows "upper t = butlast t @ ''F''" and "numeric_fail_token (butlast t @ ''F'')"
proof -
  have t: "t = butlast t @ [last t]" using assms by (simp add: numeric_fail_word_def)
  have "upper t = upper (butlast t) @ [upper_char (last t)]"
    by (subst t) (simp add: upper_def)
  then show "upper t = butlast t @ ''F''"
    using assms upper_digits [of "butlast t"] by (simp add: numeric_fail_word_def)
  show "numeric_fail_token (butlast t @ ''F'')"
    using assms by (simp add: numeric_fail_word_def numeric_fail_token_def)
qed







subsection \<open>The claims about the dictionary of a page\<close>

lemma mark_token_stored:
  assumes "mark_token s = Some v"
  shows "stored_token v"
proof (cases "find numeric_fail_word (words s)")
  case (Some t)
  then have "numeric_fail_word t" by (auto simp: find_Some_iff)
  then have "numeric_fail_token (upper t)" using upper_numeric_fail [of t] by simp
  then show ?thesis using assms Some by (simp add: mark_token_words stored_token_def)
next
  case None
  let ?valid = "filter plausible (filter number_word (words s))"
  show ?thesis
  proof (cases "list_ex f_word (words s) \<or> ?valid = []")
    case True
    then have "v = ''F''"
      using assms None by (auto simp: mark_token_words split: if_splits)
    then show ?thesis by (simp add: stored_token_def)
  next
    case False
    then have "v = last ?valid" using assms None by (simp add: mark_token_words)
    moreover have "last ?valid \<in> set ?valid" using False by (intro last_in_set) simp
    ultimately show ?thesis by (simp add: stored_token_def)
  qed
qed

lemma process_row_entry:
  "process_row cells m =
     (case row_entry cells of None \<Rightarrow> m | Some e \<Rightarrow> m(fst e \<mapsto> snd e))"
  by (simp add: process_row_def row_entry_def split: option.splits)

lemma row_entry_stored: "row_entry cells = Some e \<Longrightarrow> stored_token (snd e)"
  using mark_token_stored
  by (auto simp: row_entry_def split: if_splits option.splits)

lemma foldl_rows:
  "foldl (\<lambda>m cells. process_row cells m) m rows code =
     (if filter (\<lambda>e. fst e = code) (List.map_filter row_entry rows) = [] then m code
      else Some (snd (last (filter (\<lambda>e. fst e = code) (List.map_filter row_entry rows)))))"
proof (induction rows rule: rev_induct)
  case Nil
  then show ?case by (simp add: List.map_filter_simps)
next
  case (snoc cells rows)
  have app: "List.map_filter row_entry (rows @ [cells]) =
      List.map_filter row_entry rows @ (case row_entry cells of None \<Rightarrow> [] | Some e \<Rightarrow> [e])"
    by (simp add: List.map_filter_def split: option.splits)
  show ?case
  proof (cases "row_entry cells")
    case None
    then show ?thesis using snoc by (simp add: app process_row_entry)
  next
    case (Some e)
    then show ?thesis using snoc by (simp add: app process_row_entry)
  qed
qed

lemma foldl_tables:
  "foldl (\<lambda>m t. process_table t m) m tables =
     foldl (\<lambda>m cells. process_row cells m) m (data_rows tables)"
proof (induction tables arbitrary: m)
  case Nil
  then show ?case by (simp add: data_rows_def)
next
  case (Cons t tables)
  have "data_rows (t # tables) =
      (if marks_table t then tl (table_rows t) else []) @ data_rows tables"
    by (simp add: data_rows_def)
  then show ?case using Cons by (simp add: process_table_def)
qed

text \<open>
  Claim C1, as amended. A code is recorded once; the token it holds is the one of the
  last data row of the page, in reading order, that shows the code and yields a token.
  A code that no such row shows is not recorded.
\<close>

theorem last_row_wins:
  "extract_data_from_page (Inr tables) code =
     (if entries code tables = [] then None else Some (snd (last (entries code tables))))"
  by (simp add: extract_data_from_page_def foldl_tables foldl_rows entries_def)

theorem last_row_wins_witness:
  "entries ''CS-201'' [\<lparr>table_text = ''Total'', table_rows = [[], max_obtained_row]\<rparr>] =
     [(''CS-201'', ''76'')]
   \<and> extract_data_from_page
       (Inr [\<lparr>table_text = ''Total'', table_rows = [[], max_obtained_row]\<rparr>]) ''CS-201'' =
     Some ''76''"
proof -
  have e: "entries ''CS-201'' [\<lparr>table_text = ''Total'', table_rows = [[], max_obtained_row]\<rparr>] =
      [(''CS-201'', ''76'')]"
    by code_simp
  show ?thesis
    using last_row_wins [of "[\<lparr>table_text = ''Total'', table_rows = [[], max_obtained_row]\<rparr>]"
        "''CS-201''"]
    unfolding e by simp
qed

text \<open>
  Claim C1 as stated fails: the code CS-101 stands in two data rows, the first with the
  token 45 and the second with the token 67, and the page records 67.
\<close>

theorem first_row_overwritten_counterexample:
  "row_entry (data_rows repeated_code_page ! 0) = Some (''CS-101'', ''45'')
   \<and> row_entry (data_rows repeated_code_page ! 1) = Some (''CS-101'', ''67'')
   \<and> extract_data_from_page (Inr repeated_code_page) ''CS-101'' = Some ''67''"
  by code_simp

text \<open>
  Claim C4, as amended. Every token of the dictionary is the letter F, or one to three
  digits and the letter F, or a number of two or three digits between 10 and 100. The
  number before an F is not held to a range.
\<close>

theorem stored_tokens:
  "extract_data_from_page page code = Some v \<Longrightarrow> stored_token v"
proof (cases page)
  case (Inl e)
  then show "extract_data_from_page page code = Some v \<Longrightarrow> stored_token v"
    by (simp add: extract_data_from_page_def)
next
  case (Inr tables)
  let ?es = "filter (\<lambda>e. fst e = code) (List.map_filter row_entry (data_rows tables))"
  assume "extract_data_from_page page code = Some v"
  then have "foldl (\<lambda>m cells. process_row cells m) Map.empty (data_rows tables) code = Some v"
    by (simp add: Inr extract_data_from_page_def foldl_tables)
  then have ne: "?es \<noteq> []" and v: "v = snd (last ?es)"
    unfolding foldl_rows by (auto split: if_splits)
  have "last ?es \<in> set ?es" using ne by (rule last_in_set)
  then obtain cells where "row_entry cells = Some (last ?es)"
    by (auto simp: List.map_filter_def)
  then show "stored_token v" unfolding v by (rule row_entry_stored)
qed

theorem stored_tokens_witness:
  "extract_data_from_page (Inr repeated_code_page) ''CS-101'' = Some ''67''
   \<and> stored_token ''67''"
proof -
  have e: "extract_data_from_page (Inr repeated_code_page) ''CS-101'' = Some ''67''"
    by code_simp
  show ?thesis using stored_tokens [OF e] e by simp
qed

text \<open>
  Claim C4 as stated fails: the row with the text 5F stores the token 5F, whose number
  is 5.
\<close>

theorem low_numeric_fail_counterexample:
  "extract_data_from_page (Inr low_fail_page) ''CS-101'' = Some ''5F''
   \<and> nat_of_digits (butlast ''5F'') = 5 \<and> \<not> plausible (butlast ''5F'')"
  by code_simp

end
